theory Spec2Isabelle
  imports Complex_Main "HOL-Library.Multiset"
begin

chapter \<open>Token price explorer: cache, token service, performance monitor, conversion view\<close>

section \<open>JavaScript numbers\<close>

text \<open>
  A JavaScript \<^verbatim>\<open>number\<close> is a binary64 value: a finite value, one of the two
  infinities, or NaN. A finite value is held as the real number it denotes. Every
  arithmetic operation computes the exact result and rounds it to the nearest binary64
  value, to the even one of two equally near, as IEEE 754 prescribes. The two zeros are
  one value \<open>Finite 0\<close>, read as \<open>+0\<close>: the sign of a zero is not modelled.
\<close>

datatype jsnum = Finite real | PosInfinity | NegInfinity | NaN

subsection \<open>Rounding to binary64\<close>

definition pow2 :: "int \<Rightarrow> real" where
  "pow2 e = (if 0 \<le> e then 2 ^ nat e else 1 / 2 ^ nat (- e))"

text \<open>The integer nearest to \<open>y\<close>, the even one of two equally near.\<close>

definition round_even :: "real \<Rightarrow> int" where
  "round_even y =
     (let f = \<lfloor>y\<rfloor>; d = y - of_int f
      in if d < 1 / 2 then f else if 1 / 2 < d then f + 1 else if even f then f else f + 1)"

text \<open>
  A search by halving for the exponent \<open>e\<close> with \<open>2\<^sup>e \<le> a < 2\<^sup>e\<^sup>+\<^sup>1\<close>, between \<open>lo\<close> and
  \<open>hi\<close>, in at most \<open>k\<close> steps.
\<close>

fun bisect :: "nat \<Rightarrow> int \<Rightarrow> int \<Rightarrow> real \<Rightarrow> int" where
  "bisect 0 lo hi a = lo"
| "bisect (Suc k) lo hi a =
     (if hi \<le> lo + 1 then lo
      else (let mid = (lo + hi) div 2
            in if pow2 mid \<le> a then bisect k mid hi a else bisect k lo mid a))"

text \<open>
  The exponent of the binade of a magnitude \<open>a\<close>: \<open>-1022\<close> for the subnormal numbers and
  the smallest normal binade, \<open>1023\<close> from the largest binade on.
\<close>

definition binade :: "real \<Rightarrow> int" where
  "binade a =
     (if a < pow2 (- 1022) then - 1022
      else if pow2 1023 \<le> a then 1023
      else bisect 11 (- 1022) 1023 a)"

text \<open>
  The binary64 value of a real number: the nearest multiple of the spacing
  \<open>2\<^sup>e\<^sup>-\<^sup>5\<^sup>2\<close> of its binade, an infinity when that multiple reaches \<open>2\<^sup>1\<^sup>0\<^sup>2\<^sup>4\<close>, zero when
  it is zero.
\<close>

definition fl :: "real \<Rightarrow> jsnum" where
  "fl x =
     (let a = \<bar>x\<bar>;
          u = pow2 (binade a - 52);
          r = of_int (round_even (a / u)) * u
      in if pow2 1024 \<le> r then (if x < 0 then NegInfinity else PosInfinity)
         else Finite (if x < 0 then - r else r))"

subsection \<open>Operators\<close>

text \<open>The operator \<^verbatim>\<open>*\<close> on numbers.\<close>

fun js_times :: "jsnum \<Rightarrow> jsnum \<Rightarrow> jsnum" where
  "js_times NaN y = NaN"
| "js_times x NaN = NaN"
| "js_times (Finite a) (Finite b) = fl (a * b)"
| "js_times (Finite a) PosInfinity =
     (if a = 0 then NaN else if 0 < a then PosInfinity else NegInfinity)"
| "js_times (Finite a) NegInfinity =
     (if a = 0 then NaN else if 0 < a then NegInfinity else PosInfinity)"
| "js_times PosInfinity (Finite b) =
     (if b = 0 then NaN else if 0 < b then PosInfinity else NegInfinity)"
| "js_times NegInfinity (Finite b) =
     (if b = 0 then NaN else if 0 < b then NegInfinity else PosInfinity)"
| "js_times PosInfinity PosInfinity = PosInfinity"
| "js_times PosInfinity NegInfinity = NegInfinity"
| "js_times NegInfinity PosInfinity = NegInfinity"
| "js_times NegInfinity NegInfinity = PosInfinity"

text \<open>
  The operator \<^verbatim>\<open>/\<close> on numbers: a zero divisor gives NaN for a zero dividend and an
  infinity of the dividend's sign otherwise.
\<close>

fun js_divide :: "jsnum \<Rightarrow> jsnum \<Rightarrow> jsnum" where
  "js_divide NaN y = NaN"
| "js_divide x NaN = NaN"
| "js_divide (Finite a) (Finite b) =
     (if b = 0 then (if a = 0 then NaN else if 0 < a then PosInfinity else NegInfinity)
      else fl (a / b))"
| "js_divide (Finite a) PosInfinity = Finite 0"
| "js_divide (Finite a) NegInfinity = Finite 0"
| "js_divide PosInfinity (Finite b) = (if 0 \<le> b then PosInfinity else NegInfinity)"
| "js_divide NegInfinity (Finite b) = (if 0 \<le> b then NegInfinity else PosInfinity)"
| "js_divide PosInfinity PosInfinity = NaN"
| "js_divide PosInfinity NegInfinity = NaN"
| "js_divide NegInfinity PosInfinity = NaN"
| "js_divide NegInfinity NegInfinity = NaN"

fun isNaN :: "jsnum \<Rightarrow> bool" where
  "isNaN NaN = True"
| "isNaN x = False"

fun isFinite :: "jsnum \<Rightarrow> bool" where
  "isFinite (Finite a) = True"
| "isFinite x = False"

text \<open>
  \<^verbatim>\<open>x || 0\<close> for an optional number: \<open>None\<close> stands for \<^verbatim>\<open>undefined\<close>; the falsy numbers
  are zero and NaN.
\<close>

fun or_zero :: "jsnum option \<Rightarrow> jsnum" where
  "or_zero None = Finite 0"
| "or_zero (Some NaN) = Finite 0"
| "or_zero (Some (Finite a)) = Finite a"
| "or_zero (Some x) = x"

section \<open>Performance monitor (src/utils/performance.ts)\<close>

text \<open>
  The class \<^verbatim>\<open>PerformanceMonitor\<close>: a map from a label to its recorded values and two
  counters. The counters only ever count up from zero by one, so they are natural numbers;
  as numbers of the program they count exactly up to \<open>2\<^sup>5\<^sup>3\<close>, and a natural number below
  that bound is itself a binary64 value.
\<close>

record PerformanceMonitor =
  metrics :: "string \<rightharpoonup> jsnum list"
  cacheHits :: nat
  cacheMisses :: nat

definition new_PerformanceMonitor :: PerformanceMonitor where
  "new_PerformanceMonitor = \<lparr>metrics = Map.empty, cacheHits = 0, cacheMisses = 0\<rparr>"

text \<open>
  \<^verbatim>\<open>recordMetric\<close>: creates the label's array when the map has none, pushes the value, and
  shifts the first element out when the array has grown beyond 100. The guard
  \<^verbatim>\<open>if (!values) return\<close> is the \<open>None\<close> branch.
\<close>

definition recordMetric :: "string \<Rightarrow> jsnum \<Rightarrow> PerformanceMonitor \<Rightarrow> PerformanceMonitor" where
  "recordMetric label v pm =
     (let m = (if metrics pm label = None then (metrics pm)(label \<mapsto> []) else metrics pm)
      in case m label of
           None \<Rightarrow> pm\<lparr>metrics := m\<rparr>
         | Some vals \<Rightarrow>
             (let pushed = vals @ [v];
                  kept = (if length pushed > 100 then tl pushed else pushed)
              in pm\<lparr>metrics := m(label \<mapsto> kept)\<rparr>))"

definition recordCacheHit :: "PerformanceMonitor \<Rightarrow> PerformanceMonitor" where
  "recordCacheHit pm = pm\<lparr>cacheHits := cacheHits pm + 1\<rparr>"

definition recordCacheMiss :: "PerformanceMonitor \<Rightarrow> PerformanceMonitor" where
  "recordCacheMiss pm = pm\<lparr>cacheMisses := cacheMisses pm + 1\<rparr>"

definition getCacheHitRate :: "PerformanceMonitor \<Rightarrow> jsnum" where
  "getCacheHitRate pm =
     (let total = cacheHits pm + cacheMisses pm
      in if total = 0 then Finite 0
         else js_times (js_divide (Finite (real (cacheHits pm))) (Finite (real total)))
                (Finite 100))"

definition reset :: "PerformanceMonitor \<Rightarrow> PerformanceMonitor" where
  "reset pm = pm\<lparr>metrics := Map.empty, cacheHits := 0, cacheMisses := 0\<rparr>"

text \<open>The calls a client can make on the monitor, and a run of them from left to right.\<close>

datatype monitor_call = RecordMetric string jsnum | RecordCacheHit | RecordCacheMiss | Reset

fun monitor_step :: "PerformanceMonitor \<Rightarrow> monitor_call \<Rightarrow> PerformanceMonitor" where
  "monitor_step pm (RecordMetric label v) = recordMetric label v pm"
| "monitor_step pm RecordCacheHit = recordCacheHit pm"
| "monitor_step pm RecordCacheMiss = recordCacheMiss pm"
| "monitor_step pm Reset = reset pm"

definition monitor_run :: "PerformanceMonitor \<Rightarrow> monitor_call list \<Rightarrow> PerformanceMonitor" where
  "monitor_run pm calls = foldl monitor_step pm calls"

text \<open>A recorded access to the cache is a hit or a miss.\<close>

datatype cache_access = Hit | Miss

fun record_access :: "PerformanceMonitor \<Rightarrow> cache_access \<Rightarrow> PerformanceMonitor" where
  "record_access pm Hit = recordCacheHit pm"
| "record_access pm Miss = recordCacheMiss pm"

text \<open>The bound \<^verbatim>\<open>recordMetric\<close> keeps: no label holds more than 100 values.\<close>

definition metrics_bounded :: "PerformanceMonitor \<Rightarrow> bool" where
  "metrics_bounded pm = (\<forall>label vals. metrics pm label = Some vals \<longrightarrow> length vals \<le> 100)"

text \<open>A run that records the durations \<open>0, 1, \<dots>, n - 1\<close> of one label.\<close>

definition render_samples :: "nat \<Rightarrow> monitor_call list" where
  "render_samples n = map (\<lambda>i. RecordMetric ''render'' (Finite (real i))) [0..<n]"

section \<open>Response cache (services/tokenService.ts)\<close>

text \<open>
  \<^verbatim>\<open>ResponseCache\<close> is a map from a key to an entry. \<^verbatim>\<open>Date.now()\<close> is an integer number
  of milliseconds; each operation takes the reading of the clock at its call as the
  argument \<open>now\<close>. \<^verbatim>\<open>get\<close> also writes to the module's performance monitor, so it takes
  and returns the monitor with the cache.
\<close>

record 'a CacheEntry =
  data :: 'a
  timestamp :: int

type_synonym 'a ResponseCache = "string \<rightharpoonup> 'a CacheEntry"

definition TTL :: int where
  "TTL = 5 * 60 * 1000"

definition cache_get ::
  "int \<Rightarrow> string \<Rightarrow> 'a ResponseCache \<times> PerformanceMonitor
     \<Rightarrow> 'a option \<times> 'a ResponseCache \<times> PerformanceMonitor" where
  "cache_get now key s =
     (case s of (c, pm) \<Rightarrow>
        (case c key of
           None \<Rightarrow> (None, c, recordCacheMiss pm)
         | Some entry \<Rightarrow>
             if now - timestamp entry > TTL
             then (None, c(key := None), recordCacheMiss pm)
             else (Some (data entry), c, recordCacheHit pm)))"

definition cache_set ::
  "int \<Rightarrow> string \<Rightarrow> 'a \<Rightarrow> 'a ResponseCache \<times> PerformanceMonitor
     \<Rightarrow> 'a ResponseCache \<times> PerformanceMonitor" where
  "cache_set now key v s =
     (case s of (c, pm) \<Rightarrow> (c(key \<mapsto> \<lparr>data = v, timestamp = now\<rparr>), pm))"

definition cache_clear ::
  "'a ResponseCache \<times> PerformanceMonitor \<Rightarrow> 'a ResponseCache \<times> PerformanceMonitor" where
  "cache_clear s = (case s of (c, pm) \<Rightarrow> (Map.empty, pm))"

text \<open>
  Calls on the cache between two observed calls, each with the clock reading at which it
  runs. The results of intervening reads are dropped; their effects are kept.
\<close>

datatype 'a cache_call = Get string | Set string 'a | Clear

fun cache_step ::
  "'a ResponseCache \<times> PerformanceMonitor \<Rightarrow> int \<times> 'a cache_call
     \<Rightarrow> 'a ResponseCache \<times> PerformanceMonitor" where
  "cache_step s (now, Get key) = snd (cache_get now key s)"
| "cache_step s (now, Set key v) = cache_set now key v s"
| "cache_step s (now, Clear) = cache_clear s"

definition cache_run ::
  "'a ResponseCache \<times> PerformanceMonitor \<Rightarrow> (int \<times> 'a cache_call) list
     \<Rightarrow> 'a ResponseCache \<times> PerformanceMonitor" where
  "cache_run s calls = foldl cache_step s calls"

text \<open>A call that writes or removes the entry of \<open>k\<close> whatever the clock says.\<close>

fun overwrites :: "string \<Rightarrow> 'a cache_call \<Rightarrow> bool" where
  "overwrites k (Get key) = False"
| "overwrites k (Set key v) = (key = k)"
| "overwrites k Clear = True"

section \<open>Token service (services/tokenService.ts)\<close>

subsection \<open>Strings\<close>

text \<open>
  A string is the list of the bytes of its UTF-8 encoding. The glyphs of the source that
  are not ASCII are written as their bytes.
\<close>

definition glyph_banknote :: string where
  "glyph_banknote = [CHR 0xF0, CHR 0x9F, CHR 0x92, CHR 0xB5]"

definition glyph_xi :: string where
  "glyph_xi = [CHR 0xCE, CHR 0x9E]"

definition glyph_bitcoin :: string where
  "glyph_bitcoin = [CHR 0xE2, CHR 0x82, CHR 0xBF]"

definition glyph_yellow_circle :: string where
  "glyph_yellow_circle = [CHR 0xF0, CHR 0x9F, CHR 0x9F, CHR 0xA1]"

definition glyph_bullseye :: string where
  "glyph_bullseye = [CHR 0xE2, CHR 0x97, CHR 0x8E]"

definition glyph_coin :: string where
  "glyph_coin = [CHR 0xF0, CHR 0x9F, CHR 0xAA, CHR 0x99]"

text \<open>
  \<^verbatim>\<open>a || b\<close> for an optional string: \<open>None\<close> stands for \<^verbatim>\<open>undefined\<close> or \<^verbatim>\<open>null\<close>; the
  empty string is falsy as well.
\<close>

fun truthy_string :: "string option \<Rightarrow> bool" where
  "truthy_string None = False"
| "truthy_string (Some s) = (s \<noteq> [])"

definition or_string :: "string option \<Rightarrow> string \<Rightarrow> string" where
  "or_string a b = (case a of None \<Rightarrow> b | Some s \<Rightarrow> if s = [] then b else s)"

text \<open>
  \<^verbatim>\<open>toUpperCase\<close>, as far as the table lookup of \<^verbatim>\<open>getTokenIcon\<close> can see it: the ASCII
  letters, and the two letters outside ASCII whose upper case is an ASCII letter (U+017F,
  bytes C5 BF, becomes S; U+0131, bytes C4 B1, becomes I). Every other code point keeps its
  bytes: its upper case has a code point outside ASCII, or is one of SS, FF, FI, FL, FFI,
  FFL, ST, none of which occurs in a key of the table.
\<close>

definition upper_char :: "char \<Rightarrow> char" where
  "upper_char c =
     (case map_of (zip ''abcdefghijklmnopqrstuvwxyz'' ''ABCDEFGHIJKLMNOPQRSTUVWXYZ'') c of
        None \<Rightarrow> c
      | Some u \<Rightarrow> u)"

fun toUpperCase :: "string \<Rightarrow> string" where
  "toUpperCase [] = []"
| "toUpperCase [c] = [upper_char c]"
| "toUpperCase (c1 # c2 # cs) =
     (if c1 = CHR 0xC5 \<and> c2 = CHR 0xBF then CHR ''S'' # toUpperCase cs
      else if c1 = CHR 0xC4 \<and> c2 = CHR 0xB1 then CHR ''I'' # toUpperCase cs
      else upper_char c1 # toUpperCase (c2 # cs))"

subsection \<open>Tokens and the catalog\<close>

record Token =
  symbol :: string
  name :: string
  price :: jsnum
  icon :: string
  chainId :: string
  address :: "string option"

text \<open>An entry of \<^verbatim>\<open>SUPPORTED_TOKENS\<close>: \<^verbatim>\<open>{ symbol, name, chainId, icon }\<close>.\<close>

record SupportedToken =
  st_symbol :: string
  st_name :: string
  st_chainId :: string
  st_icon :: string

definition SUPPORTED_TOKENS :: "SupportedToken list" where
  "SUPPORTED_TOKENS =
     [\<lparr>st_symbol = ''USDC'', st_name = ''USD Coin'', st_chainId = ''1'', st_icon = glyph_banknote\<rparr>,
      \<lparr>st_symbol = ''USDT'', st_name = ''Tether USD'', st_chainId = ''137'', st_icon = glyph_banknote\<rparr>,
      \<lparr>st_symbol = ''ETH'', st_name = ''Ethereum'', st_chainId = ''8453'', st_icon = glyph_xi\<rparr>,
      \<lparr>st_symbol = ''WBTC'', st_name = ''Wrapped Bitcoin'', st_chainId = ''1'', st_icon = glyph_bitcoin\<rparr>]"

definition iconMap :: "(string \<times> string) list" where
  "iconMap =
     [(''BTC'', glyph_bitcoin), (''WBTC'', glyph_bitcoin), (''ETH'', glyph_xi),
      (''USDC'', glyph_banknote), (''USDT'', glyph_banknote), (''BNB'', glyph_yellow_circle),
      (''SOL'', glyph_bullseye)]"

text \<open>\<^verbatim>\<open>iconMap[symbol.toUpperCase()] || coin\<close>: every glyph of the table is a truthy string.\<close>

definition getTokenIcon :: "string \<Rightarrow> string" where
  "getTokenIcon symb = or_string (map_of iconMap (toUpperCase symb)) glyph_coin"

definition priceMap :: "(string \<times> jsnum) list" where
  "priceMap = [(''USDC'', Finite 1), (''USDT'', Finite 1), (''ETH'', Finite 2500), (''WBTC'', Finite 45000)]"

text \<open>
  \<^verbatim>\<open>priceMap[symbol] || 0\<close>. The source calls it on the symbols of the catalog only; the
  properties an object literal inherits (a lookup of \<^verbatim>\<open>constructor\<close>, say) are not
  modelled.
\<close>

definition getDefaultPrice :: "string \<Rightarrow> jsnum" where
  "getDefaultPrice symb = or_zero (map_of priceMap symb)"

subsection \<open>The external API and the module's state\<close>

text \<open>
  The two functions of the package \<^verbatim>\<open>@funkit/api-base\<close> are not part of the repository.
  Of what they answer the code reads three fields of the asset and one of the price;
  \<open>None\<close> is a field, or a whole answer, that is \<^verbatim>\<open>undefined\<close> or \<^verbatim>\<open>null\<close>.
\<close>

record AssetInfo =
  asset_symbol :: "string option"
  asset_name :: "string option"
  asset_address :: "string option"

record PriceInfo =
  unitPrice :: "jsnum option"

datatype exn = Exn string

text \<open>
  The world outside the module: what each call of the API comes to (\<open>Inl\<close> when it throws
  or its promise rejects), and the reading of \<^verbatim>\<open>Date.now()\<close> at the moment the fetch of a
  token has got its answers and writes the cache. The API key is constant and part of the
  oracle. Every call settles: a promise that stays pending for ever is outside the model.
\<close>

record api =
  getAssetErc20ByChainAndSymbol :: "string \<Rightarrow> string \<Rightarrow> exn + AssetInfo option"
  getAssetPriceInfo :: "string \<Rightarrow> string \<Rightarrow> exn + PriceInfo option"
  settled_at :: "string \<Rightarrow> string \<Rightarrow> int"

text \<open>
  The state of the module: the cache \<^verbatim>\<open>apiCache\<close>, the monitor \<^verbatim>\<open>perfMonitor\<close> it
  imports, and a log of the requests the module has sent to the API. The log is not a
  variable of the source: it records the network calls as they are made. It is a
  multiset, which says which requests were sent and how often, and not in which order: the
  order of the requests of fetches that run at the same time depends on when the network
  answers.
\<close>

datatype api_call = AssetCall string string | PriceCall string string

record modules =
  apiCache :: "Token ResponseCache"
  perfMonitor :: PerformanceMonitor
  apiCalls :: "api_call multiset"

definition apiCache_get :: "int \<Rightarrow> string \<Rightarrow> modules \<Rightarrow> Token option \<times> modules" where
  "apiCache_get now key m =
     (case cache_get now key (apiCache m, perfMonitor m) of
        (r, c, pm) \<Rightarrow> (r, m\<lparr>apiCache := c, perfMonitor := pm\<rparr>))"

definition apiCache_set :: "int \<Rightarrow> string \<Rightarrow> Token \<Rightarrow> modules \<Rightarrow> modules" where
  "apiCache_set now key token m =
     (case cache_set now key token (apiCache m, perfMonitor m) of
        (c, pm) \<Rightarrow> m\<lparr>apiCache := c, perfMonitor := pm\<rparr>)"

definition sent :: "api_call \<Rightarrow> modules \<Rightarrow> modules" where
  "sent call m = m\<lparr>apiCalls := add_mset call (apiCalls m)\<rparr>"

text \<open>
  What a read at time \<open>now\<close> finds under a key: the value of an entry that is there and not
  expired.
\<close>

definition valid_entry :: "int \<Rightarrow> 'a ResponseCache \<Rightarrow> string \<Rightarrow> 'a option" where
  "valid_entry now c key =
     (case c key of
        None \<Rightarrow> None
      | Some entry \<Rightarrow> if now - timestamp entry > TTL then None else Some (data entry))"

subsection \<open>getTokenInfo\<close>

definition cacheKey :: "string \<Rightarrow> string \<Rightarrow> string" where
  "cacheKey chain_id symb = ''token-'' @ chain_id @ ''-'' @ symb"

text \<open>
  The inner \<^verbatim>\<open>try\<close>: the price lookup, made when the asset has a truthy address. Its
  \<^verbatim>\<open>catch\<close> logs the error and leaves the price at 0.
\<close>

definition fetch_price :: "api \<Rightarrow> string \<Rightarrow> AssetInfo \<Rightarrow> modules \<Rightarrow> jsnum \<times> modules" where
  "fetch_price env chain_id tokenInfo m =
     (case asset_address tokenInfo of
        None \<Rightarrow> (Finite 0, m)
      | Some addr \<Rightarrow>
          if addr = [] then (Finite 0, m)
          else (let m1 = sent (PriceCall chain_id addr) m
                in case getAssetPriceInfo env chain_id addr of
                     Inl err \<Rightarrow> (Finite 0, m1)
                   | Inr priceInfo \<Rightarrow>
                       (or_zero (case priceInfo of None \<Rightarrow> None | Some p \<Rightarrow> unitPrice p), m1)))"

text \<open>
  \<^verbatim>\<open>getTokenInfo\<close> runs in two parts. The first runs at once, when the function is called:
  the read of the cache at the reading \<open>now\<close> and, when that finds nothing, the request for
  the asset. Its result is the cached token, or \<open>None\<close> for a fetch that now waits for the
  answer.
\<close>

definition getTokenInfo_start :: "int \<Rightarrow> string \<Rightarrow> string \<Rightarrow> modules \<Rightarrow> Token option \<times> modules" where
  "getTokenInfo_start now chain_id symb m =
     (case apiCache_get now (cacheKey chain_id symb) m of
        (Some cached, m1) \<Rightarrow> (Some cached, m1)
      | (None, m1) \<Rightarrow> (None, sent (AssetCall chain_id symb) m1))"

text \<open>
  The body of the outer \<^verbatim>\<open>try\<close> from the answer of the asset lookup on. It ends in an
  exception (\<open>Inl\<close>) when the asset lookup does; the state it has reached by then stays.
\<close>

definition getTokenInfo_try ::
  "api \<Rightarrow> string \<Rightarrow> string \<Rightarrow> modules \<Rightarrow> (exn + Token option) \<times> modules" where
  "getTokenInfo_try env chain_id symb m =
     (case getAssetErc20ByChainAndSymbol env chain_id symb of
        Inl err \<Rightarrow> (Inl err, m)
      | Inr None \<Rightarrow> (Inr None, m)
      | Inr (Some tokenInfo) \<Rightarrow>
          (case fetch_price env chain_id tokenInfo m of
             (p, m2) \<Rightarrow>
               (let token = \<lparr>symbol = or_string (asset_symbol tokenInfo) symb,
                             name = or_string (asset_name tokenInfo) symb,
                             price = p,
                             icon = getTokenIcon symb,
                             chainId = chain_id,
                             address = asset_address tokenInfo\<rparr>
                in (Inr (Some token),
                    apiCache_set (settled_at env chain_id symb) (cacheKey chain_id symb) token m2))))"

text \<open>
  The second part of \<^verbatim>\<open>getTokenInfo\<close>, which runs when the answers are in: nothing more for
  a token that was cached; otherwise the \<^verbatim>\<open>try\<close>, whose \<^verbatim>\<open>catch\<close> logs the error and returns
  \<^verbatim>\<open>null\<close>. The result is what the promise comes to: \<open>Inl\<close> were a rejection, \<open>Inr None\<close> is
  \<^verbatim>\<open>null\<close>.
\<close>

definition getTokenInfo_settle ::
  "api \<Rightarrow> string \<Rightarrow> string \<Rightarrow> Token option \<Rightarrow> modules \<Rightarrow> (exn + Token option) \<times> modules" where
  "getTokenInfo_settle env chain_id symb started m =
     (case started of
        Some cached \<Rightarrow> (Inr (Some cached), m)
      | None \<Rightarrow>
          (case getTokenInfo_try env chain_id symb m of
             (Inl err, m2) \<Rightarrow> (Inr None, m2)
           | (Inr result, m2) \<Rightarrow> (Inr result, m2)))"

text \<open>A single call of \<^verbatim>\<open>getTokenInfo\<close>, from the call to the end of its promise.\<close>

definition getTokenInfo ::
  "api \<Rightarrow> int \<Rightarrow> string \<Rightarrow> string \<Rightarrow> modules \<Rightarrow> (exn + Token option) \<times> modules" where
  "getTokenInfo env now chain_id symb m =
     (case getTokenInfo_start now chain_id symb m of
        (started, m1) \<Rightarrow> getTokenInfo_settle env chain_id symb started m1)"

subsection \<open>getAllTokensInfo\<close>

text \<open>The cache key of an entry of the catalog.\<close>

abbreviation (input) key_of :: "SupportedToken \<Rightarrow> string" where
  "key_of token \<equiv> cacheKey (st_chainId token) (st_symbol token)"

text \<open>
  The loop over the catalog that collects the cached tokens and breaks at the first miss.
  The flag of the result is \<^verbatim>\<open>allCached\<close>.
\<close>

fun cached_loop ::
  "int \<Rightarrow> SupportedToken list \<Rightarrow> Token list \<Rightarrow> modules \<Rightarrow> (Token list \<times> bool) \<times> modules" where
  "cached_loop now [] cachedTokens m = ((cachedTokens, True), m)"
| "cached_loop now (token # rest) cachedTokens m =
     (case apiCache_get now (cacheKey (st_chainId token) (st_symbol token)) m of
        (Some cached, m1) \<Rightarrow> cached_loop now rest (cachedTokens @ [cached]) m1
      | (None, m1) \<Rightarrow> ((cachedTokens, False), m1))"

text \<open>
  \<^verbatim>\<open>SUPPORTED_TOKENS.map((token) => getTokenInfo(...))\<close> starts the four fetches, in catalog
  order: each reads the cache and sends its request for the asset before the next one
  starts, and before any answer is in.
\<close>

fun start_each ::
  "int \<Rightarrow> SupportedToken list \<Rightarrow> modules \<Rightarrow> Token option list \<times> modules" where
  "start_each now [] m = ([], m)"
| "start_each now (token # rest) m =
     (case getTokenInfo_start now (st_chainId token) (st_symbol token) m of
        (started, m1) \<Rightarrow>
          (case start_each now rest m1 of
             (others, m2) \<Rightarrow> (started # others, m2)))"

text \<open>
  The fetches then go on as their answers come in, in an order that depends on the
  network. Each of them writes the cache under its own key only, the keys of the catalog
  are pairwise different, and the log keeps no order, so the state they leave does not
  depend on that order; the model lets them finish in catalog order.
\<close>

fun settle_each ::
  "api \<Rightarrow> (SupportedToken \<times> Token option) list \<Rightarrow> modules \<Rightarrow>
     (exn + Token option) list \<times> modules" where
  "settle_each env [] m = ([], m)"
| "settle_each env ((token, started) # rest) m =
     (case getTokenInfo_settle env (st_chainId token) (st_symbol token) started m of
        (promise, m1) \<Rightarrow>
          (case settle_each env rest m1 of
             (promises, m2) \<Rightarrow> (promise # promises, m2)))"

definition fetch_each ::
  "api \<Rightarrow> int \<Rightarrow> SupportedToken list \<Rightarrow> modules \<Rightarrow> (exn + Token option) list \<times> modules" where
  "fetch_each env now toks m =
     (case start_each now toks m of
        (started, m1) \<Rightarrow> settle_each env (zip toks started) m1)"

text \<open>\<^verbatim>\<open>Promise.all\<close>: the list of the values, or a rejection when one promise rejects.\<close>

fun promise_all :: "(exn + 'a) list \<Rightarrow> exn + 'a list" where
  "promise_all [] = Inr []"
| "promise_all (Inl err # ps) = Inl err"
| "promise_all (Inr v # ps) =
     (case promise_all ps of Inl err \<Rightarrow> Inl err | Inr vs \<Rightarrow> Inr (v # vs))"

text \<open>The record the final \<^verbatim>\<open>map\<close> builds when the result of a position is falsy.\<close>

definition fallback :: "SupportedToken \<Rightarrow> Token" where
  "fallback token =
     \<lparr>symbol = st_symbol token,
      name = st_name token,
      price = getDefaultPrice (st_symbol token),
      icon = st_icon token,
      chainId = st_chainId token,
      address = None\<rparr>"

text \<open>
  The callback of the final \<^verbatim>\<open>map\<close>, on an index and its entry: \<^verbatim>\<open>results[index]\<close> is
  \<^verbatim>\<open>undefined\<close> beyond the end of the array and \<^verbatim>\<open>null\<close> for a fetch that found nothing.
\<close>

definition result_or_fallback :: "Token option list \<Rightarrow> nat \<times> SupportedToken \<Rightarrow> Token" where
  "result_or_fallback results p =
     (case p of (index, token) \<Rightarrow>
        (if index < length results
         then (case results ! index of Some result \<Rightarrow> result | None \<Rightarrow> fallback token)
         else fallback token))"

definition getAllTokensInfo :: "api \<Rightarrow> int \<Rightarrow> modules \<Rightarrow> (exn + Token list) \<times> modules" where
  "getAllTokensInfo env now m =
     (case cached_loop now SUPPORTED_TOKENS [] m of
        ((cachedTokens, allCached), m1) \<Rightarrow>
          if allCached then (Inr cachedTokens, m1)
          else (case fetch_each env now SUPPORTED_TOKENS m1 of
                  (tokenPromises, m2) \<Rightarrow>
                    (case promise_all tokenPromises of
                       Inl err \<Rightarrow> (Inl err, m2)
                     | Inr results \<Rightarrow>
                         (Inr (map (result_or_fallback results) (enumerate 0 SUPPORTED_TOKENS)),
                          m2))))"

text \<open>
  The results of the four fetches of a call that does not find all tokens cached, in
  catalog order (a rejected fetch would count as no token).
\<close>

definition fetch_results :: "api \<Rightarrow> int \<Rightarrow> modules \<Rightarrow> Token option list" where
  "fetch_results env now m =
     map (\<lambda>promise. case promise of Inl err \<Rightarrow> None | Inr result \<Rightarrow> result)
       (fst (fetch_each env now SUPPORTED_TOKENS (snd (cached_loop now SUPPORTED_TOKENS [] m))))"

text \<open>Every token of the catalog has an entry that a read at \<open>now\<close> finds.\<close>

definition all_cached :: "int \<Rightarrow> modules \<Rightarrow> bool" where
  "all_cached now m =
     list_all (\<lambda>token. valid_entry now (apiCache m) (cacheKey (st_chainId token) (st_symbol token)) \<noteq> None)
       SUPPORTED_TOKENS"

text \<open>An API that is unreachable, and one that knows every asset but no price.\<close>

definition api_down :: api where
  "api_down =
     \<lparr>getAssetErc20ByChainAndSymbol = (\<lambda>chain_id symb. Inl (Exn ''network'')),
      getAssetPriceInfo = (\<lambda>chain_id addr. Inl (Exn ''network'')),
      settled_at = (\<lambda>chain_id symb. 50)\<rparr>"

definition api_no_price :: api where
  "api_no_price =
     \<lparr>getAssetErc20ByChainAndSymbol =
        (\<lambda>chain_id symb. Inr (Some \<lparr>asset_symbol = Some symb, asset_name = None, asset_address = Some ''0xA0''\<rparr>)),
      getAssetPriceInfo = (\<lambda>chain_id addr. Inl (Exn ''timeout'')),
      settled_at = (\<lambda>chain_id symb. 50)\<rparr>"

definition new_modules :: modules where
  "new_modules = \<lparr>apiCache = Map.empty, perfMonitor = new_PerformanceMonitor, apiCalls = {#}\<rparr>"

text \<open>An asset lookup that gives no token: it throws, or it answers \<^verbatim>\<open>null\<close>.\<close>

definition no_token :: "exn + AssetInfo option \<Rightarrow> bool" where
  "no_token answer =
     (case answer of Inl err \<Rightarrow> True | Inr None \<Rightarrow> True | Inr (Some tokenInfo) \<Rightarrow> False)"

text \<open>
  A price lookup that gives no price: it throws, it answers \<^verbatim>\<open>null\<close>, or its answer has
  no \<^verbatim>\<open>unitPrice\<close>.
\<close>

definition no_price :: "exn + PriceInfo option \<Rightarrow> bool" where
  "no_price answer =
     (case answer of
        Inl err \<Rightarrow> True
      | Inr None \<Rightarrow> True
      | Inr (Some p) \<Rightarrow> unitPrice p = None)"





section \<open>Conversion view (App.tsx)\<close>

subsection \<open>Decimal strings\<close>

definition is_digit :: "char \<Rightarrow> bool" where
  "is_digit c = (c \<in> set ''0123456789'')"

text \<open>The value of a digit, and of a string of digits read as a decimal numeral.\<close>

definition digit_value :: "char \<Rightarrow> nat" where
  "digit_value c = of_char c - 48"

definition digits_value :: "string \<Rightarrow> nat" where
  "digits_value ds = foldl (\<lambda>n c. 10 * n + digit_value c) 0 ds"

definition digit_char :: "nat \<Rightarrow> char" where
  "digit_char d = ''0123456789'' ! d"

text \<open>The decimal numeral of a natural number, without leading zeros.\<close>

fun digit_string :: "nat \<Rightarrow> string" where
  "digit_string n =
     (if n < 10 then [digit_char n] else digit_string (n div 10) @ [digit_char (n mod 10)])"

declare digit_string.simps [simp del]

subsection \<open>The pattern of the amount fields\<close>

text \<open>
  \<^verbatim>\<open>/^\d*\.?\d*$/.test(value)\<close>: a run of digits, then at most one point, then a run of
  digits, then the end of the string. A scan from the left that takes each run as long as
  it can decides the pattern: a shorter first run would leave a digit before the place of
  the point, and that digit belongs to the same run.
\<close>

definition decimal_test :: "string \<Rightarrow> bool" where
  "decimal_test v =
     (let rest = dropWhile is_digit v;
          after_point = (case rest of [] \<Rightarrow> [] | c # cs \<Rightarrow> if c = CHR ''.'' then cs else rest)
      in dropWhile is_digit after_point = [])"

text \<open>
  The pattern in the words of the specification: digits with at most one decimal point.
\<close>

definition decimal_pattern :: "string \<Rightarrow> bool" where
  "decimal_pattern v =
     (list_all (\<lambda>c. is_digit c \<or> c = CHR ''.'') v \<and> count_list v (CHR ''.'') \<le> 1)"

subsection \<open>parseFloat\<close>

text \<open>
  The white space and line terminators that \<^verbatim>\<open>parseFloat\<close> skips at the start, as UTF-8
  byte sequences: TAB, LF, VT, FF, CR, SP, U+00A0, U+1680, U+2000 to U+200A, U+2028,
  U+2029, U+202F, U+205F, U+3000 and U+FEFF.
\<close>

definition white_space :: "string list" where
  "white_space =
     [[CHR 0x09], [CHR 0x0A], [CHR 0x0B], [CHR 0x0C], [CHR 0x0D], [CHR 0x20],
      [CHR 0xC2, CHR 0xA0], [CHR 0xE1, CHR 0x9A, CHR 0x80],
      [CHR 0xE2, CHR 0x80, CHR 0x80], [CHR 0xE2, CHR 0x80, CHR 0x81],
      [CHR 0xE2, CHR 0x80, CHR 0x82], [CHR 0xE2, CHR 0x80, CHR 0x83],
      [CHR 0xE2, CHR 0x80, CHR 0x84], [CHR 0xE2, CHR 0x80, CHR 0x85],
      [CHR 0xE2, CHR 0x80, CHR 0x86], [CHR 0xE2, CHR 0x80, CHR 0x87],
      [CHR 0xE2, CHR 0x80, CHR 0x88], [CHR 0xE2, CHR 0x80, CHR 0x89],
      [CHR 0xE2, CHR 0x80, CHR 0x8A], [CHR 0xE2, CHR 0x80, CHR 0xA8],
      [CHR 0xE2, CHR 0x80, CHR 0xA9], [CHR 0xE2, CHR 0x80, CHR 0xAF],
      [CHR 0xE2, CHR 0x81, CHR 0x9F], [CHR 0xE3, CHR 0x80, CHR 0x80],
      [CHR 0xEF, CHR 0xBB, CHR 0xBF]]"

fun strip_one :: "string list \<Rightarrow> string \<Rightarrow> string option" where
  "strip_one [] s = None"
| "strip_one (w # ws) s =
     (if take (length w) s = w then Some (drop (length w) s) else strip_one ws s)"

text \<open>
  The test on the lengths always holds (no sequence of \<open>white_space\<close> is empty); it makes
  the recursion visibly well-founded.
\<close>

function trim_start :: "string \<Rightarrow> string" where
  "trim_start s =
     (case strip_one white_space s of
        None \<Rightarrow> s
      | Some rest \<Rightarrow> if length rest < length s then trim_start rest else s)"
  by pat_completeness auto
termination
  by (relation "measure length") auto

declare trim_start.simps [simp del]

text \<open>
  The factor of an exponent part \<^verbatim>\<open>e\<close>, \<^verbatim>\<open>E\<close> with an optional sign and at least one digit;
  anything else after the mantissa is not part of the numeral and is ignored.
\<close>

definition exponent_factor :: "string \<Rightarrow> real" where
  "exponent_factor s =
     (case s of
        [] \<Rightarrow> 1
      | e # r \<Rightarrow>
          if e = CHR ''e'' \<or> e = CHR ''E'' then
            (case r of
               [] \<Rightarrow> 1
             | sg # r' \<Rightarrow>
                 if sg = CHR ''-'' then
                   (if takeWhile is_digit r' = [] then 1
                    else 1 / 10 ^ digits_value (takeWhile is_digit r'))
                 else if sg = CHR ''+'' then
                   (if takeWhile is_digit r' = [] then 1
                    else 10 ^ digits_value (takeWhile is_digit r'))
                 else
                   (if takeWhile is_digit r = [] then 1
                    else 10 ^ digits_value (takeWhile is_digit r)))
          else 1)"

definition mantissa :: "string \<Rightarrow> string \<Rightarrow> real" where
  "mantissa ip fp = real (digits_value ip) + real (digits_value fp) / 10 ^ length fp"

text \<open>
  The longest prefix that is an unsigned decimal literal of the string-to-number grammar:
  \<^verbatim>\<open>Infinity\<close>, or digits with an optional point and fraction, or a point and digits, each
  with an optional exponent part. NaN when there is none. The result is the binary64 value
  nearest to the decimal value of the literal: a long literal is rounded, a huge one is
  \<open>Infinity\<close>, a tiny one is 0.
\<close>

definition parse_unsigned :: "string \<Rightarrow> jsnum" where
  "parse_unsigned s =
     (if take 8 s = ''Infinity'' then PosInfinity
      else
        (let ip = takeWhile is_digit s; r1 = dropWhile is_digit s
         in case r1 of
              [] \<Rightarrow> if ip = [] then NaN else fl (mantissa ip [])
            | c # r2 \<Rightarrow>
                if c = CHR ''.'' then
                  (let fp = takeWhile is_digit r2; r3 = dropWhile is_digit r2
                   in if ip = [] \<and> fp = [] then NaN
                      else fl (mantissa ip fp * exponent_factor r3))
                else if ip = [] then NaN
                else fl (mantissa ip [] * exponent_factor r1)))"

fun js_negate :: "jsnum \<Rightarrow> jsnum" where
  "js_negate (Finite a) = Finite (- a)"
| "js_negate PosInfinity = NegInfinity"
| "js_negate NegInfinity = PosInfinity"
| "js_negate NaN = NaN"

definition parseFloat :: "string \<Rightarrow> jsnum" where
  "parseFloat s =
     (case trim_start s of
        [] \<Rightarrow> NaN
      | c # cs \<Rightarrow>
          if c = CHR ''-'' then js_negate (parse_unsigned cs)
          else if c = CHR ''+'' then parse_unsigned cs
          else parse_unsigned (c # cs))"

subsection \<open>toFixed\<close>

text \<open>
  \<^verbatim>\<open>Number.prototype.toFixed(fd)\<close>. A finite value below \<open>10\<^sup>2\<^sup>1\<close> in magnitude becomes
  the integer \<open>n\<close> nearest to its magnitude times \<open>10\<^sup>f\<^sup>d\<close> (the larger one of two equally
  near), written with at least \<open>fd + 1\<close> digits and a point before the last \<open>fd\<close>; the
  product and the comparison are those of the real numbers, taken on the exact value of
  the binary64 number. From \<open>10\<^sup>2\<^sup>1\<close> on the result is the number's ordinary string, in
  exponent notation, which is the parameter \<open>exponential\<close>.
\<close>

definition toFixed :: "(real \<Rightarrow> string) \<Rightarrow> nat \<Rightarrow> jsnum \<Rightarrow> string" where
  "toFixed exponential fd x =
     (case x of
        NaN \<Rightarrow> ''NaN''
      | PosInfinity \<Rightarrow> ''Infinity''
      | NegInfinity \<Rightarrow> ''-Infinity''
      | Finite a \<Rightarrow>
          (let s = (if a < 0 then ''-'' else []);
               b = \<bar>a\<bar>
           in if 10 ^ 21 \<le> b then s @ exponential b
              else
                (let n = nat \<lfloor>b * 10 ^ fd + 1 / 2\<rfloor>;
                     m = digit_string n;
                     padded = (if length m \<le> fd then replicate (fd + 1 - length m) (CHR ''0'') @ m
                               else m);
                     k = length padded
                 in if fd = 0 then s @ m
                    else s @ take (k - fd) padded @ ''.'' @ drop (k - fd) padded)))"

text \<open>
  Rounding to \<open>fd\<close> decimal places in the words of the specification: the multiple of
  \<open>10\<^sup>-\<^sup>f\<^sup>d\<close> nearest to the number, and of two equally near the one away from zero.
\<close>

definition round_places :: "nat \<Rightarrow> real \<Rightarrow> real" where
  "round_places fd a =
     (if a < 0 then - 1 else 1) * real (nat \<lfloor>\<bar>a\<bar> * 10 ^ fd + 1 / 2\<rfloor>) / 10 ^ fd"

subsection \<open>The component's state and two of its handlers\<close>

record AppState =
  tokens :: "Token list"
  leftToken :: "Token option"
  rightToken :: "Token option"
  leftAmount :: string
  rightAmount :: string
  isLoading :: bool
  error :: "string option"

text \<open>
  The effect on \<^verbatim>\<open>[debouncedLeftAmount, leftToken, rightToken]\<close>. The debounced amount is
  an argument: it is the left amount of some earlier render.
\<close>

definition updateRightAmount :: "(real \<Rightarrow> string) \<Rightarrow> string \<Rightarrow> AppState \<Rightarrow> AppState" where
  "updateRightAmount exponential debouncedLeftAmount st =
     (case leftToken st of
        None \<Rightarrow> st\<lparr>rightAmount := []\<rparr>
      | Some l \<Rightarrow>
          (case rightToken st of
             None \<Rightarrow> st\<lparr>rightAmount := []\<rparr>
           | Some r \<Rightarrow>
               if debouncedLeftAmount = [] then st\<lparr>rightAmount := []\<rparr>
               else
                 (let leftValue = js_times (parseFloat debouncedLeftAmount) (price l);
                      rightValue = js_divide leftValue (price r)
                  in st\<lparr>rightAmount :=
                          (if isNaN rightValue then ''0'' else toFixed exponential 6 rightValue)\<rparr>)))"

text \<open>The quotient the effect computes.\<close>

definition conversion :: "string \<Rightarrow> Token \<Rightarrow> Token \<Rightarrow> jsnum" where
  "conversion amount l r = js_divide (js_times (parseFloat amount) (price l)) (price r)"

definition handleLeftAmountChange :: "string \<Rightarrow> AppState \<Rightarrow> AppState" where
  "handleLeftAmountChange v st =
     (if v = [] \<or> decimal_test v then st\<lparr>leftAmount := v\<rparr> else st)"

text \<open>A token of a given price, and a state with two tokens selected.\<close>

definition priced :: "string \<Rightarrow> jsnum \<Rightarrow> Token" where
  "priced symb p =
     \<lparr>symbol = symb, name = symb, price = p, icon = getTokenIcon symb, chainId = ''1'',
      address = None\<rparr>"

definition selected :: "Token \<Rightarrow> Token \<Rightarrow> AppState" where
  "selected l r =
     \<lparr>tokens = [l, r], leftToken = Some l, rightToken = Some r, leftAmount = ''1'',
      rightAmount = [], isLoading = False, error = None\<rparr>"

text \<open>An exponent notation that is never reached in the examples.\<close>

definition no_exponential :: "real \<Rightarrow> string" where
  "no_exponential x = []"

chapter \<open>Properties\<close>

section \<open>Rounding to binary64\<close>

subsection \<open>Powers of two and the exponent of a number\<close>

lemma pow2_powi: "pow2 e = 2 powi e"
  by (simp add: pow2_def power_int_def inverse_eq_divide power_one_over)

lemma pow2_pos: "0 < pow2 e"
  by (simp add: pow2_powi)

lemma pow2_add: "pow2 (a + b) = pow2 a * pow2 b"
  by (simp add: pow2_powi power_int_add)

lemma pow2_strict_mono: "a < b \<Longrightarrow> pow2 a < pow2 b"
  by (simp add: pow2_powi power_int_strict_increasing)

lemma pow2_mono: "a \<le> b \<Longrightarrow> pow2 a \<le> pow2 b"
  by (simp add: pow2_powi power_int_increasing)

lemma pow2_nat: "pow2 (int n) = 2 ^ n"
  by (simp add: pow2_def)

lemma pow2_diff: "pow2 (a - b) = pow2 a / pow2 b"
  using pow2_add [of "a - b" b] pow2_pos [of b] by (simp add: field_simps)

text \<open>
  A magnitude lies in one binade only, the search by halving finds it, and so \<open>binade\<close>
  is the exponent of every normal magnitude.
\<close>

lemma binade_unique:
  assumes "pow2 e \<le> a" and "a < pow2 (e + 1)" and "pow2 e' \<le> a" and "a < pow2 (e' + 1)"
  shows "e = e'"
proof (rule ccontr)
  assume "e \<noteq> e'"
  then consider "e + 1 \<le> e'" | "e' + 1 \<le> e" by linarith
  then show False
  proof cases
    case 1
    then have "pow2 (e + 1) \<le> pow2 e'" by (rule pow2_mono)
    with assms show False by linarith
  next
    case 2
    then have "pow2 (e' + 1) \<le> pow2 e" by (rule pow2_mono)
    with assms show False by linarith
  qed
qed

lemma bisect_correct:
  assumes "pow2 lo \<le> a" and "a < pow2 hi" and "hi - lo \<le> 2 ^ k"
  shows "pow2 (bisect k lo hi a) \<le> a \<and> a < pow2 (bisect k lo hi a + 1)"
  using assms
proof (induction k arbitrary: lo hi)
  case 0
  have "lo < hi"
  proof (rule ccontr)
    assume "\<not> lo < hi"
    then have "pow2 hi \<le> pow2 lo" by (simp add: pow2_mono)
    with 0 show False by linarith
  qed
  with 0 have "hi = lo + 1" by simp
  with 0 show ?case by simp
next
  case (Suc k)
  have lt: "lo < hi"
  proof (rule ccontr)
    assume "\<not> lo < hi"
    then have "pow2 hi \<le> pow2 lo" by (simp add: pow2_mono)
    with Suc.prems show False by linarith
  qed
  show ?case
  proof (cases "hi \<le> lo + 1")
    case True
    with lt have "hi = lo + 1" by simp
    with Suc.prems True show ?thesis by simp
  next
    case False
    define mid where "mid = (lo + hi) div 2"
    from Suc.prems(3) have w: "hi - lo \<le> 2 * 2 ^ k" by simp
    have up: "hi - mid \<le> 2 ^ k" and down: "mid - lo \<le> 2 ^ k"
      using w unfolding mid_def by linarith+
    show ?thesis
    proof (cases "pow2 mid \<le> a")
      case True
      from Suc.IH [OF True Suc.prems(2) up] False True show ?thesis
        by (simp add: mid_def Let_def)
    next
      case no: False
      then have "a < pow2 mid" by simp
      from Suc.IH [OF Suc.prems(1) this down] False no show ?thesis
        by (simp add: mid_def Let_def)
    qed
  qed
qed

lemma binade_eq:
  assumes "pow2 e \<le> a" and "a < pow2 (e + 1)" and "- 1022 \<le> e" and "e \<le> 1023"
  shows "binade a = e"
proof -
  have low: "pow2 (- 1022) \<le> a"
    using pow2_mono [OF assms(3)] assms(1) by linarith
  show ?thesis
  proof (cases "pow2 1023 \<le> a")
    case True
    have "e = 1023"
    proof (rule ccontr)
      assume "e \<noteq> 1023"
      with assms(4) have "e + 1 \<le> 1023" by simp
      then have "pow2 (e + 1) \<le> pow2 1023" by (rule pow2_mono)
      with True assms(2) show False by linarith
    qed
    with True low show ?thesis by (simp add: binade_def)
  next
    case False
    then have high: "a < pow2 1023" by simp
    have "(1023::int) - (- 1022) \<le> 2 ^ 11" by simp
    from bisect_correct [OF low high this]
    have "bisect 11 (- 1022) 1023 a = e"
      using binade_unique [OF _ _ assms(1,2)] by blast
    with False low show ?thesis by (simp add: binade_def)
  qed
qed

lemma binade_subnormal: "a < pow2 (- 1022) \<Longrightarrow> binade a = - 1022"
  by (simp add: binade_def)

subsection \<open>The value and the error of a rounding\<close>

lemma round_even_near: "\<bar>of_int (round_even y) - y\<bar> \<le> 1 / 2"
proof -
  have "of_int \<lfloor>y\<rfloor> \<le> y" and "y < of_int \<lfloor>y\<rfloor> + 1"
    by linarith+
  then show ?thesis
    by (auto simp: round_even_def Let_def)
qed

lemma round_even_int: "round_even (of_int n) = n"
  by (simp add: round_even_def)

text \<open>
  The rounding of a number whose binade is known, and of a number below the normal range:
  these two equations evaluate \<open>fl\<close> on a given number.
\<close>

lemma fl_binade:
  assumes "pow2 e \<le> \<bar>x\<bar>" and "\<bar>x\<bar> < pow2 (e + 1)" and "- 1022 \<le> e" and "e \<le> 1023"
  shows "fl x =
           (if pow2 1024 \<le> of_int (round_even (\<bar>x\<bar> / pow2 (e - 52))) * pow2 (e - 52)
            then (if x < 0 then NegInfinity else PosInfinity)
            else Finite (if x < 0 then - (of_int (round_even (\<bar>x\<bar> / pow2 (e - 52))) * pow2 (e - 52))
                         else of_int (round_even (\<bar>x\<bar> / pow2 (e - 52))) * pow2 (e - 52)))"
  unfolding fl_def Let_def binade_eq [OF assms] ..

lemma fl_subnormal:
  assumes "\<bar>x\<bar> < pow2 (- 1022)"
  shows "fl x =
           Finite (if x < 0 then - (of_int (round_even (\<bar>x\<bar> / pow2 (- 1074))) * pow2 (- 1074))
                   else of_int (round_even (\<bar>x\<bar> / pow2 (- 1074))) * pow2 (- 1074))"
proof -
  let ?n = "round_even (\<bar>x\<bar> / pow2 (- 1074))"
  have "\<bar>x\<bar> / pow2 (- 1074) < pow2 (- 1022) / pow2 (- 1074)"
    using assms pow2_pos [of "- 1074"] by (simp add: divide_strict_right_mono)
  also have "\<dots> = 2 ^ 52"
    using pow2_diff [of "- 1022" "- 1074"] pow2_nat [of 52] by simp
  finally have "\<bar>x\<bar> / pow2 (- 1074) < 2 ^ 52" .
  moreover have "\<bar>of_int ?n - \<bar>x\<bar> / pow2 (- 1074)\<bar> \<le> 1 / 2"
    by (rule round_even_near)
  ultimately have "real_of_int ?n < 2 ^ 52 + 1"
    by linarith
  then have "real_of_int ?n < real_of_int (2 ^ 52 + 1)"
    by simp
  then have "?n < 2 ^ 52 + 1"
    by (simp only: of_int_less_iff)
  then have "?n \<le> 2 ^ 52" by simp
  then have "real_of_int ?n \<le> real_of_int (2 ^ 52)"
    by (simp only: of_int_le_iff)
  then have "real_of_int ?n \<le> 2 ^ 52"
    by simp
  then have "of_int ?n * pow2 (- 1074) \<le> 2 ^ 52 * pow2 (- 1074)"
    using pow2_pos [of "- 1074"] by (simp add: mult_right_mono)
  also have "\<dots> = pow2 (- 1022)"
    using pow2_add [of 52 "- 1074"] pow2_nat [of 52] by simp
  also have "\<dots> < pow2 1024"
    by (rule pow2_strict_mono) simp
  finally have "\<not> pow2 1024 \<le> of_int ?n * pow2 (- 1074)" by simp
  then show ?thesis
    unfolding fl_def Let_def binade_subnormal [OF assms] by simp
qed

lemma fl_zero: "fl 0 = Finite 0"
  using fl_subnormal [of 0] pow2_pos [of "- 1022"] by (simp add: round_even_def)

text \<open>
  A number of the normal range below \<open>2\<^sup>1\<^sup>0\<^sup>2\<^sup>3\<close> rounds to a finite number at most half a
  spacing away: a relative error of at most \<open>2\<^sup>-\<^sup>5\<^sup>3\<close>.
\<close>

lemma fl_normal_error:
  assumes lo: "pow2 e \<le> \<bar>x\<bar>" and hi: "\<bar>x\<bar> < pow2 (e + 1)" and "- 1022 \<le> e" and "e \<le> 1022"
  shows "\<exists>y. fl x = Finite y \<and> \<bar>y - x\<bar> \<le> pow2 (e - 53) \<and> \<bar>y - x\<bar> \<le> \<bar>x\<bar> / 2 ^ 53
           \<and> \<bar>y\<bar> \<le> pow2 (e + 1)"
proof -
  define u where "u = pow2 (e - 52)"
  define n where "n = round_even (\<bar>x\<bar> / u)"
  define r where "r = real_of_int n * u"
  have u: "0 < u" unfolding u_def by (rule pow2_pos)
  have half: "u / 2 = pow2 (e - 53)"
    using pow2_diff [of "e - 52" 1] pow2_nat [of 1] by (simp add: u_def)
  have top: "2 ^ 53 * u = pow2 (e + 1)"
    using pow2_add [of 53 "e - 52"] pow2_nat [of 53] by (simp add: u_def add.commute)
  have e53: "pow2 (e - 53) = pow2 e / 2 ^ 53"
    using pow2_diff [of e 53] pow2_nat [of 53] by simp
  have near: "\<bar>real_of_int n - \<bar>x\<bar> / u\<bar> \<le> 1 / 2"
    unfolding n_def by (rule round_even_near)
  have "(real_of_int n - \<bar>x\<bar> / u) * u = r - \<bar>x\<bar>"
    using u by (simp add: r_def left_diff_distrib)
  then have "\<bar>r - \<bar>x\<bar>\<bar> = \<bar>real_of_int n - \<bar>x\<bar> / u\<bar> * u"
    using u abs_mult_pos [of u "real_of_int n - \<bar>x\<bar> / u"] by simp
  also have "\<dots> \<le> 1 / 2 * u"
    using near u by (simp add: mult_right_mono)
  finally have err: "\<bar>r - \<bar>x\<bar>\<bar> \<le> pow2 (e - 53)"
    using half by simp
  have "\<bar>x\<bar> / u < pow2 (e + 1) / u"
    using hi u by (simp add: divide_strict_right_mono)
  also have "\<dots> = 2 ^ 53"
    using top u by (simp add: field_simps)
  finally have "real_of_int n < 2 ^ 53 + 1"
    using near by linarith
  then have "real_of_int n < real_of_int (2 ^ 53 + 1)"
    by simp
  then have "n < 2 ^ 53 + 1"
    by (simp only: of_int_less_iff)
  then have "n \<le> 2 ^ 53" by simp
  then have "real_of_int n \<le> real_of_int (2 ^ 53)"
    by (simp only: of_int_le_iff)
  then have "real_of_int n \<le> 2 ^ 53" by simp
  then have "r \<le> 2 ^ 53 * u"
    using u by (simp add: r_def mult_right_mono)
  then have rtop: "r \<le> pow2 (e + 1)"
    using top by simp
  have "0 \<le> \<bar>x\<bar> / u" using u by simp
  with near have "- 1 < real_of_int n" by linarith
  then have "real_of_int (- 1) < real_of_int n" by simp
  then have "- 1 < n" by (simp only: of_int_less_iff)
  then have "0 \<le> real_of_int n" by simp
  then have r0: "0 \<le> r" using u by (simp add: r_def)
  have "pow2 (e + 1) \<le> pow2 1023"
    using assms(4) by (intro pow2_mono) simp
  also have "\<dots> < pow2 1024"
    by (rule pow2_strict_mono) simp
  finally have fin: "\<not> pow2 1024 \<le> r"
    using rtop by simp
  have range: "e \<le> 1023" using assms(4) by simp
  have f: "fl x = Finite (if x < 0 then - r else r)"
    using fin unfolding fl_binade [OF lo hi assms(3) range] r_def n_def u_def by simp
  have d: "\<bar>(if x < 0 then - r else r) - x\<bar> = \<bar>r - \<bar>x\<bar>\<bar>"
    by (cases "x < 0") simp_all
  have rel: "pow2 (e - 53) \<le> \<bar>x\<bar> / 2 ^ 53"
    unfolding e53 using lo by (simp add: divide_right_mono)
  have a: "\<bar>if x < 0 then - r else r\<bar> = r"
    using r0 by simp
  have "\<bar>(if x < 0 then - r else r) - x\<bar> \<le> pow2 (e - 53)"
    unfolding d by (rule err)
  moreover have "\<bar>(if x < 0 then - r else r) - x\<bar> \<le> \<bar>x\<bar> / 2 ^ 53"
    unfolding d using err rel by (rule order_trans)
  moreover have "\<bar>if x < 0 then - r else r\<bar> \<le> pow2 (e + 1)"
    unfolding a by (rule rtop)
  ultimately show ?thesis
    using f by blast
qed

lemma pow2_less_imp: "pow2 a < pow2 b \<Longrightarrow> a < b"
  using pow2_mono [of b a] by (cases "a < b") simp_all

lemma exponent_exists:
  assumes "0 < a"
  shows "\<exists>e. pow2 e \<le> a \<and> a < pow2 (e + 1)"
proof -
  define e where "e = \<lfloor>log 2 a\<rfloor>"
  have p: "pow2 k = 2 powr real_of_int k" for k
    by (simp add: pow2_powi powr_real_of_int')
  have "real_of_int e \<le> log 2 a"
    unfolding e_def by simp
  then have lo: "pow2 e \<le> a"
    using assms by (simp add: p le_log_iff)
  have "log 2 a < real_of_int (e + 1)"
    unfolding e_def by simp
  then have "a < pow2 (e + 1)"
    using assms unfolding p by (simp only: log_less_iff [of 2 a, OF _ assms])
  with lo show ?thesis by blast
qed

lemma fl_relative_error:
  assumes lo: "pow2 (- 1022) \<le> \<bar>x\<bar>" and hi: "\<bar>x\<bar> < pow2 1023"
  shows "\<exists>y. fl x = Finite y \<and> \<bar>y - x\<bar> \<le> \<bar>x\<bar> / 2 ^ 53"
proof -
  have "0 < \<bar>x\<bar>"
    using lo pow2_pos [of "- 1022"] by linarith
  then obtain e where e: "pow2 e \<le> \<bar>x\<bar>" "\<bar>x\<bar> < pow2 (e + 1)"
    using exponent_exists by blast
  from lo e(2) have "pow2 (- 1022) < pow2 (e + 1)" by linarith
  then have "- 1022 < e + 1" by (rule pow2_less_imp)
  then have l: "- 1022 \<le> e" by simp
  from e(1) hi have "pow2 e < pow2 1023" by linarith
  then have "e < 1023" by (rule pow2_less_imp)
  then have h: "e \<le> 1022" by simp
  from fl_normal_error [OF e l h] show ?thesis by blast
qed

section \<open>Performance monitor\<close>

subsection \<open>Counters and hit rate\<close>

lemma record_access_hits:
  "cacheHits (foldl record_access pm as) = cacheHits pm + count_list as Hit"
proof (induction as arbitrary: pm)
  case Nil
  show ?case by simp
next
  case (Cons a as)
  show ?case by (cases a) (simp_all add: Cons.IH recordCacheHit_def recordCacheMiss_def)
qed

lemma record_access_misses:
  "cacheMisses (foldl record_access pm as) = cacheMisses pm + count_list as Miss"
proof (induction as arbitrary: pm)
  case Nil
  show ?case by simp
next
  case (Cons a as)
  show ?case by (cases a) (simp_all add: Cons.IH recordCacheHit_def recordCacheMiss_def)
qed

lemma count_hit_miss: "count_list as Hit + count_list as Miss = length as"
proof (induction as)
  case Nil
  show ?case by simp
next
  case (Cons a as)
  then show ?case by (cases a) simp_all
qed

text \<open>
  The two roundings of \<^verbatim>\<open>(cacheHits / total) * 100\<close>. With at least one hit among fewer
  than \<open>2\<^sup>5\<^sup>3\<close> accesses the quotient lies between \<open>2\<^sup>-\<^sup>5\<^sup>3\<close> and 1, far from the
  subnormal range and from overflow, so each rounding moves the value by at most one part
  in \<open>2\<^sup>5\<^sup>3\<close>.
\<close>

lemma pow2_tiny: "pow2 (- 1022) \<le> 1 / 2 ^ 54"
proof -
  have "pow2 (- 1022) \<le> pow2 (- 54)" by (rule pow2_mono) simp
  then show ?thesis by (simp add: pow2_def)
qed

lemma pow2_huge: "256 \<le> pow2 1023"
proof -
  have "pow2 8 \<le> pow2 1023" by (rule pow2_mono) simp
  then show ?thesis by (simp add: pow2_def)
qed

lemma rate_error:
  assumes "0 < h" and "h \<le> t" and "t < 2 ^ 53"
  shows "\<exists>y. js_times (js_divide (Finite (real h)) (Finite (real t))) (Finite 100) = Finite y
           \<and> \<bar>y - real h / real t * 100\<bar> \<le> real h / real t * 100 / 2 ^ 51"
proof -
  define q where "q = real h / real t"
  have t: "0 < real t" "real t < 2 ^ 53"
    using assms by simp_all
  have "1 / 2 ^ 53 < 1 / real t"
    using t by (simp add: field_simps)
  also have "\<dots> \<le> q"
    unfolding q_def using assms(1) t by (simp add: divide_right_mono)
  finally have qlo: "1 / 2 ^ 53 < q" .
  have qhi: "q \<le> 1"
    unfolding q_def using assms t by simp
  have q0: "0 < q"
    using qlo by (simp add: order.strict_trans [OF _ qlo])
  have "pow2 (- 1022) \<le> \<bar>q\<bar>" "\<bar>q\<bar> < pow2 1023"
    using pow2_tiny pow2_huge qlo qhi q0 by simp_all
  from fl_relative_error [OF this] obtain y1
    where y1: "fl q = Finite y1" "\<bar>y1 - q\<bar> \<le> \<bar>q\<bar> / 2 ^ 53"
    by blast
  have e1: "\<bar>y1 - q\<bar> \<le> q / 2 ^ 53"
    using y1(2) q0 by simp
  have "q / 2 ^ 53 \<le> q / 2"
    using q0 by (simp add: field_simps)
  with e1 have y1lo: "q / 2 \<le> y1" and y1hi: "y1 \<le> 2 * q"
    using q0 by linarith+
  have "1 / 2 ^ 54 \<le> q / 2"
    using qlo by simp
  have ypos: "0 < y1"
    using y1lo q0 by linarith
  from \<open>1 / 2 ^ 54 \<le> q / 2\<close> y1lo ypos have "1 / 2 ^ 54 \<le> y1 * 100"
    by linarith
  moreover have "y1 * 100 \<le> 200"
    using y1hi qhi by linarith
  moreover note ypos
  ultimately have "pow2 (- 1022) \<le> \<bar>y1 * 100\<bar>" "\<bar>y1 * 100\<bar> < pow2 1023"
    using pow2_tiny pow2_huge by simp_all
  from fl_relative_error [OF this] obtain y2
    where y2: "fl (y1 * 100) = Finite y2" "\<bar>y2 - y1 * 100\<bar> \<le> \<bar>y1 * 100\<bar> / 2 ^ 53"
    by blast
  have "\<bar>y1 * 100\<bar> / 2 ^ 53 \<le> 200 * q / 2 ^ 53"
    using y1hi ypos by (simp add: divide_right_mono)
  with y2(2) have e2: "\<bar>y2 - y1 * 100\<bar> \<le> 200 * q / 2 ^ 53"
    by linarith
  have split: "y2 - q * 100 = (y2 - y1 * 100) + (y1 - q) * 100"
    by (simp add: algebra_simps)
  have m: "\<bar>(y1 - q) * 100\<bar> = 100 * \<bar>y1 - q\<bar>"
    unfolding abs_mult by simp
  have "\<bar>y2 - q * 100\<bar> \<le> \<bar>y2 - y1 * 100\<bar> + 100 * \<bar>y1 - q\<bar>"
    unfolding split m [symmetric] by (rule abs_triangle_ineq)
  also have "\<dots> \<le> 200 * q / 2 ^ 53 + 100 * (q / 2 ^ 53)"
    using e1 e2 by (intro add_mono mult_left_mono) simp_all
  also have "\<dots> \<le> q * 100 / 2 ^ 51"
    using q0 by (simp add: field_simps)
  finally have "\<bar>y2 - q * 100\<bar> \<le> q * 100 / 2 ^ 51" .
  moreover have "js_times (js_divide (Finite (real h)) (Finite (real t))) (Finite 100) = Finite y2"
    using t y1(1) y2(1) by (simp add: q_def)
  ultimately show ?thesis
    unfolding q_def by blast
qed

lemma rate_no_hit:
  "0 < t \<Longrightarrow> js_times (js_divide (Finite 0) (Finite (real t))) (Finite 100) = Finite 0"
  by (simp add: fl_zero)

lemma counters_after:
  "cacheHits (foldl record_access new_PerformanceMonitor as) = count_list as Hit"
  "cacheMisses (foldl record_access new_PerformanceMonitor as) = count_list as Miss"
  by (simp_all add: record_access_hits record_access_misses new_PerformanceMonitor_def)

text \<open>
  Claim C9, as the code computes it. After any sequence of fewer than \<open>2\<^sup>5\<^sup>3\<close> recorded cache
  hits and misses on a new monitor (the range in which the counters count exactly), the
  reported hit rate is 0 when nothing has been recorded; otherwise it is the binary64
  result of hits / (hits + misses) \<times> 100, the quotient rounded and then the product
  rounded, a finite number within a relative error of \<open>2\<^sup>-\<^sup>5\<^sup>1\<close> of the exact value
  hits / (hits + misses) \<times> 100.
\<close>

theorem hit_rate_binary64:
  assumes "length as < 2 ^ 53"
  shows "if as = [] then getCacheHitRate (foldl record_access new_PerformanceMonitor as) = Finite 0
         else getCacheHitRate (foldl record_access new_PerformanceMonitor as) =
                js_times
                  (js_divide (Finite (real (count_list as Hit)))
                     (Finite (real (count_list as Hit + count_list as Miss))))
                  (Finite 100)
              \<and> (\<exists>y. getCacheHitRate (foldl record_access new_PerformanceMonitor as) = Finite y
                    \<and> \<bar>y - real (count_list as Hit) / real (count_list as Hit + count_list as Miss) * 100\<bar>
                        \<le> real (count_list as Hit) / real (count_list as Hit + count_list as Miss) * 100
                           / 2 ^ 51)"
proof (cases "as = []")
  case True
  then show ?thesis
    by (simp add: getCacheHitRate_def new_PerformanceMonitor_def)
next
  case False
  let ?h = "count_list as Hit"
  let ?t = "count_list as Hit + count_list as Miss"
  have t: "?t = length as"
    by (rule count_hit_miss)
  with False have pos: "?t \<noteq> 0"
    by simp
  have rate: "getCacheHitRate (foldl record_access new_PerformanceMonitor as) =
                js_times (js_divide (Finite (real ?h)) (Finite (real ?t))) (Finite 100)"
    using pos unfolding getCacheHitRate_def Let_def counters_after by simp
  have "\<exists>y. js_times (js_divide (Finite (real ?h)) (Finite (real ?t))) (Finite 100) = Finite y
          \<and> \<bar>y - real ?h / real ?t * 100\<bar> \<le> real ?h / real ?t * 100 / 2 ^ 51"
  proof (cases "?h = 0")
    case True
    then show ?thesis
      using rate_no_hit [of ?t] pos by simp
  next
    case False
    then have "0 < ?h" by simp
    moreover have "?h \<le> ?t" by simp
    moreover have "?t < 2 ^ 53" using assms t by simp
    ultimately show ?thesis by (rule rate_error)
  qed
  with rate False show ?thesis
    by simp
qed

lemma rate_1_of_3:
  "js_times (js_divide (Finite 1) (Finite 3)) (Finite 100) =
     Finite (2345624805922133 / 70368744177664)"
proof -
  have "fl (1 / 3) = Finite (6004799503160661 / 18014398509481984)"
    by (subst fl_binade [where e = "- 2"]) (simp_all add: pow2_def round_even_def)
  then have d: "js_divide (Finite 1) (Finite 3) = Finite (6004799503160661 / 18014398509481984)"
    by simp
  have "fl (6004799503160661 / 18014398509481984 * 100) =
          Finite (2345624805922133 / 70368744177664)"
    by (subst fl_binade [where e = 5]) (simp_all add: pow2_def round_even_def)
  then show ?thesis
    unfolding d by (simp only: js_times.simps)
qed

text \<open>
  One hit and two misses: the rate is the binary64 number \<open>33.33333333333333\<close>, which is
  not 100/3 but within the bound of it. Three hits and a miss give exactly 75.
\<close>

theorem hit_rate_binary64_witness:
  "length [Hit, Miss, Miss] < 2 ^ 53
   \<and> getCacheHitRate (foldl record_access new_PerformanceMonitor [Hit, Miss, Miss]) =
       Finite (2345624805922133 / 70368744177664)
   \<and> \<bar>2345624805922133 / 70368744177664 - 1 / 3 * 100 :: real\<bar> \<le> 1 / 3 * 100 / 2 ^ 51"
  using hit_rate_binary64 [of "[Hit, Miss, Miss]"]
  by (simp add: rate_1_of_3 del: js_times.simps js_divide.simps)

lemma rate_7_of_25:
  "js_times (js_divide (Finite 7) (Finite 25)) (Finite 100) =
     Finite (7881299347898369 / 281474976710656)"
proof -
  have "fl (7 / 25) = Finite (1261007895663739 / 4503599627370496)"
    by (subst fl_binade [where e = "- 2"]) (simp_all add: pow2_def round_even_def)
  then have d: "js_divide (Finite 7) (Finite 25) = Finite (1261007895663739 / 4503599627370496)"
    by simp
  have "fl (1261007895663739 / 4503599627370496 * 100) =
          Finite (7881299347898369 / 281474976710656)"
    by (subst fl_binade [where e = 4]) (simp_all add: pow2_def round_even_def)
  then show ?thesis
    unfolding d by (simp only: js_times.simps)
qed

text \<open>
  Claim C9 as the specification states it fails: after 7 hits and 18 misses the reported
  rate is the binary64 number \<open>28.000000000000004\<close>, which is \<open>28 + 2\<^sup>-\<^sup>4\<^sup>8\<close>, and not
  7 / (7 + 18) \<times> 100 = 28.
\<close>

theorem hit_rate_7_of_25_is_not_28:
  "getCacheHitRate
     (foldl record_access new_PerformanceMonitor
        [Hit, Hit, Hit, Hit, Hit, Hit, Hit,
         Miss, Miss, Miss, Miss, Miss, Miss, Miss, Miss, Miss,
         Miss, Miss, Miss, Miss, Miss, Miss, Miss, Miss, Miss])
   = Finite (28 + 1 / 2 ^ 48)
   \<and> getCacheHitRate
       (foldl record_access new_PerformanceMonitor
          [Hit, Hit, Hit, Hit, Hit, Hit, Hit,
           Miss, Miss, Miss, Miss, Miss, Miss, Miss, Miss, Miss,
           Miss, Miss, Miss, Miss, Miss, Miss, Miss, Miss, Miss])
     \<noteq> Finite (7 / (7 + 18) * 100)"
  by (simp add: getCacheHitRate_def recordCacheHit_def recordCacheMiss_def
      new_PerformanceMonitor_def rate_7_of_25 del: js_times.simps js_divide.simps)

subsection \<open>Bounded metric storage\<close>

lemma recordMetric_label:
  "metrics (recordMetric label v pm) label =
     Some (let pushed = (case metrics pm label of None \<Rightarrow> [] | Some vals \<Rightarrow> vals) @ [v]
           in if length pushed > 100 then tl pushed else pushed)"
  by (cases "metrics pm label") (simp_all add: recordMetric_def Let_def)

lemma recordMetric_other:
  "l \<noteq> label \<Longrightarrow> metrics (recordMetric label v pm) l = metrics pm l"
  by (cases "metrics pm label") (simp_all add: recordMetric_def Let_def)

lemma recordMetric_keeps_bound:
  assumes "metrics_bounded pm"
  shows "metrics_bounded (recordMetric label v pm)"
  unfolding metrics_bounded_def
proof (intro allI impI)
  fix l vals
  assume got: "metrics (recordMetric label v pm) l = Some vals"
  show "length vals \<le> 100"
  proof (cases "l = label")
    case True
    let ?old = "case metrics pm label of None \<Rightarrow> [] | Some vs \<Rightarrow> vs"
    have "length ?old \<le> 100"
      using assms by (cases "metrics pm label") (simp_all add: metrics_bounded_def)
    with got True show ?thesis
      by (auto simp: recordMetric_label Let_def split: if_splits)
  next
    case False
    with got have "metrics pm l = Some vals"
      by (simp add: recordMetric_other)
    with assms show ?thesis
      by (simp add: metrics_bounded_def)
  qed
qed

lemma monitor_step_keeps_bound:
  "metrics_bounded pm \<Longrightarrow> metrics_bounded (monitor_step pm call)"
  by (cases call)
     (simp_all add: recordMetric_keeps_bound,
      simp_all add: metrics_bounded_def recordCacheHit_def recordCacheMiss_def reset_def)

lemma monitor_run_keeps_bound:
  "metrics_bounded pm \<Longrightarrow> metrics_bounded (monitor_run pm calls)"
  unfolding monitor_run_def
  by (induction calls arbitrary: pm) (simp_all add: monitor_step_keeps_bound)

text \<open>
  Claim C10. After any sequence of calls on a new monitor, no label holds more than 100
  values. One \<^verbatim>\<open>recordMetric\<close> keeps the bound: it appends the new value to the label's
  list and, when the list already holds 100 values, drops the oldest one.
\<close>

theorem metrics_never_exceed_100:
  "metrics_bounded (monitor_run new_PerformanceMonitor calls)
   \<and> (metrics_bounded pm \<longrightarrow>
        metrics_bounded (recordMetric label v pm)
        \<and> metrics (recordMetric label v pm) label =
            Some (let old = (case metrics pm label of None \<Rightarrow> [] | Some vals \<Rightarrow> vals)
                  in if length old < 100 then old @ [v] else tl old @ [v]))"
proof (intro conjI impI)
  show "metrics_bounded (monitor_run new_PerformanceMonitor calls)"
    by (rule monitor_run_keeps_bound) (simp add: metrics_bounded_def new_PerformanceMonitor_def)
next
  assume "metrics_bounded pm"
  then show "metrics_bounded (recordMetric label v pm)"
    by (rule recordMetric_keeps_bound)
next
  assume b: "metrics_bounded pm"
  show "metrics (recordMetric label v pm) label =
            Some (let old = (case metrics pm label of None \<Rightarrow> [] | Some vals \<Rightarrow> vals)
                  in if length old < 100 then old @ [v] else tl old @ [v])"
  proof (cases "metrics pm label")
    case None
    then show ?thesis by (simp add: recordMetric_label)
  next
    case (Some vals)
    with b have "length vals \<le> 100" by (simp add: metrics_bounded_def)
    with Some show ?thesis
      by (cases vals) (auto simp: recordMetric_label Let_def)
  qed
qed

text \<open>
  A monitor that holds 100 values of the label \<open>render\<close> is within the bound, and
  recording a 101st leaves 100.
\<close>

theorem metrics_never_exceed_100_witness:
  "metrics_bounded (monitor_run new_PerformanceMonitor (render_samples 101))
   \<and> metrics_bounded (monitor_run new_PerformanceMonitor (render_samples 100))
   \<and> metrics_bounded (recordMetric ''render'' (Finite 100)
        (monitor_run new_PerformanceMonitor (render_samples 100)))
   \<and> map_option length (metrics (recordMetric ''render'' (Finite 100)
        (monitor_run new_PerformanceMonitor (render_samples 100))) ''render'') = Some 100"
proof -
  let ?pm = "monitor_run new_PerformanceMonitor (render_samples 100)"
  have b: "metrics_bounded ?pm"
    using metrics_never_exceed_100 [of "render_samples 100"] by simp
  have old: "metrics ?pm ''render'' = Some (map (\<lambda>i. Finite (real i)) [0..<100])"
    unfolding render_samples_def monitor_run_def by code_simp
  from b metrics_never_exceed_100 [of "render_samples 101" ?pm "''render''" "Finite 100"]
  show ?thesis
    by (simp add: old Let_def)
qed

text \<open>The 101st value pushes the oldest one out.\<close>

lemma render_101:
  "metrics (monitor_run new_PerformanceMonitor (render_samples 101)) ''render'' =
     Some (map (\<lambda>i. Finite (real i)) [1..<101])"
  unfolding render_samples_def monitor_run_def by code_simp

section \<open>Response cache\<close>

lemma cache_get_fresh:
  assumes "fst s k = Some e" and "now - timestamp e \<le> TTL"
  shows "cache_get now k s = (Some (data e), fst s, recordCacheHit (snd s))"
  using assms by (cases s) (simp add: cache_get_def)

lemma cache_get_stale:
  assumes "fst s k = Some e" and "TTL < now - timestamp e"
  shows "cache_get now k s = (None, (fst s)(k := None), recordCacheMiss (snd s))"
  using assms by (cases s) (simp add: cache_get_def)

lemma cache_get_absent:
  assumes "fst s k = None"
  shows "cache_get now k s = (None, fst s, recordCacheMiss (snd s))"
  using assms by (cases s) (simp add: cache_get_def)

lemma cache_get_other_key:
  "key \<noteq> k \<Longrightarrow> fst (snd (cache_get now key s)) k = fst s k"
  by (cases s) (simp add: cache_get_def split: option.splits)

lemma cache_set_entry:
  "fst (cache_set now k v s) k = Some \<lparr>data = v, timestamp = now\<rparr>"
  by (cases s) (simp add: cache_set_def)

lemma cache_set_other_key:
  "key \<noteq> k \<Longrightarrow> fst (cache_set now key v s) k = fst s k"
  by (cases s) (simp add: cache_set_def)

subsection \<open>A read within the time to live\<close>

text \<open>
  An entry that is not expired at the time of a call survives the call, unless the call
  overwrites it.
\<close>

lemma cache_step_keeps_fresh:
  assumes "fst s k = Some e" and "t - timestamp e \<le> TTL" and "\<not> overwrites k call"
  shows "fst (cache_step s (t, call)) k = Some e"
proof (cases call)
  case (Get key)
  show ?thesis
  proof (cases "key = k")
    case True
    with Get assms show ?thesis by (simp add: cache_get_fresh)
  next
    case False
    with Get assms show ?thesis by (simp add: cache_get_other_key)
  qed
next
  case (Set key w)
  with assms show ?thesis by (simp add: cache_set_other_key)
next
  case Clear
  with assms show ?thesis by simp
qed

lemma cache_run_keeps_fresh:
  assumes "fst s k = Some e"
      and "\<forall>(t, call) \<in> set calls. \<not> overwrites k call \<and> t - timestamp e \<le> TTL"
  shows "fst (cache_run s calls) k = Some e"
  using assms unfolding cache_run_def
proof (induction calls arbitrary: s)
  case Nil
  then show ?case by simp
next
  case (Cons c calls)
  obtain t call where c: "c = (t, call)" by (cases c)
  from Cons.prems c have "fst (cache_step s c) k = Some e"
    by (simp add: cache_step_keeps_fresh)
  moreover from Cons.prems
  have "\<forall>(t, call) \<in> set calls. \<not> overwrites k call \<and> t - timestamp e \<le> TTL"
    by simp
  ultimately show ?case
    using Cons.IH by simp
qed

text \<open>
  Claim C2. \<^verbatim>\<open>set(k, v)\<close> at clock reading \<open>t0\<close>, then any calls that neither set \<open>k\<close> nor
  clear the cache, each at a reading no later than \<open>t1\<close>, then \<^verbatim>\<open>get(k)\<close> at reading \<open>t1\<close>
  with no more than the time to live elapsed since \<open>t0\<close>: the read returns exactly \<open>v\<close>.
  The code expires an entry when more than the time to live has elapsed, so the statement
  covers an elapsed time of exactly five minutes as well as every shorter one.
\<close>

theorem get_after_set_within_TTL:
  assumes "t1 - t0 \<le> TTL"
      and "\<forall>(t, call) \<in> set calls. \<not> overwrites k call \<and> t \<le> t1"
  shows "fst (cache_get t1 k (cache_run (cache_set t0 k v s) calls)) = Some v"
proof -
  let ?e = "\<lparr>data = v, timestamp = t0\<rparr>"
  have "\<forall>(t, call) \<in> set calls. \<not> overwrites k call \<and> t - timestamp ?e \<le> TTL"
    using assms by auto
  then have "fst (cache_run (cache_set t0 k v s) calls) k = Some ?e"
    by (rule cache_run_keeps_fresh [OF cache_set_entry])
  then show ?thesis
    using assms(1) by (simp add: cache_get_fresh)
qed

text \<open>
  A value set at time 0 is read back at 300000 ms, after a read of the same key and a
  write and a read of another key.
\<close>

theorem get_after_set_within_TTL_witness:
  "fst (cache_get 300000 ''token-1-USDC''
     (cache_run (cache_set 0 ''token-1-USDC'' (42::nat) (Map.empty, new_PerformanceMonitor))
        [(1000, Get ''token-1-USDC''), (2000, Set ''token-1-WBTC'' 7), (3000, Get ''token-1-WBTC'')]))
   = Some 42"
  by (rule get_after_set_within_TTL) (simp_all add: TTL_def)

subsection \<open>A read beyond the time to live\<close>

text \<open>Without a write to \<open>k\<close>, the key holds the entry that was set, or nothing.\<close>

lemma cache_step_no_set:
  assumes "fst s k = None \<or> fst s k = Some e" and "\<forall>w. call \<noteq> Set k w"
  shows "fst (cache_step s (t, call)) k = None \<or> fst (cache_step s (t, call)) k = Some e"
proof (cases call)
  case (Get key)
  obtain c pm where s: "s = (c, pm)" by (cases s)
  from assms(1) Get s show ?thesis
    by (auto simp: cache_get_def split: option.splits)
next
  case (Set key w)
  with assms have "key \<noteq> k" by auto
  with Set assms(1) show ?thesis by (simp add: cache_set_other_key)
next
  case Clear
  then show ?thesis by (cases s) (simp add: cache_clear_def)
qed

lemma cache_run_no_set:
  assumes "fst s k = None \<or> fst s k = Some e"
      and "\<forall>(t, call) \<in> set calls. \<forall>w. call \<noteq> Set k w"
  shows "fst (cache_run s calls) k = None \<or> fst (cache_run s calls) k = Some e"
  using assms unfolding cache_run_def
proof (induction calls arbitrary: s)
  case Nil
  then show ?case by simp
next
  case (Cons c calls)
  obtain t call where c: "c = (t, call)" by (cases c)
  from Cons.prems c
  have "fst (cache_step s c) k = None \<or> fst (cache_step s c) k = Some e"
    using cache_step_no_set [of s k e call t] by simp
  moreover from Cons.prems have "\<forall>(t, call) \<in> set calls. \<forall>w. call \<noteq> Set k w"
    by simp
  ultimately show ?case
    using Cons.IH [of "cache_step s c"] by simp
qed

text \<open>
  Claim C3. \<^verbatim>\<open>set(k, v)\<close> at clock reading \<open>t0\<close>, then any calls that do not set \<open>k\<close>, then
  \<^verbatim>\<open>get(k)\<close> at a reading \<open>t1\<close> more than the time to live after \<open>t0\<close>: the read returns
  absent, the cache it leaves has no entry for \<open>k\<close> (and is otherwise as it was), the
  monitor has one more miss and the same number of hits, and a later read of \<open>k\<close>, at any
  reading \<open>t2\<close>, returns absent.
\<close>

theorem get_after_TTL_is_miss:
  assumes "TTL < t1 - t0"
      and "\<forall>(t, call) \<in> set calls. \<forall>w. call \<noteq> Set k w"
  shows "cache_get t1 k (cache_run (cache_set t0 k v s) calls) =
           (None, (fst (cache_run (cache_set t0 k v s) calls))(k := None),
            recordCacheMiss (snd (cache_run (cache_set t0 k v s) calls)))
         \<and> fst (snd (cache_get t1 k (cache_run (cache_set t0 k v s) calls))) k = None
         \<and> cacheMisses (snd (snd (cache_get t1 k (cache_run (cache_set t0 k v s) calls)))) =
             cacheMisses (snd (cache_run (cache_set t0 k v s) calls)) + 1
         \<and> cacheHits (snd (snd (cache_get t1 k (cache_run (cache_set t0 k v s) calls)))) =
             cacheHits (snd (cache_run (cache_set t0 k v s) calls))
         \<and> fst (cache_get t2 k (snd (cache_get t1 k (cache_run (cache_set t0 k v s) calls)))) = None"
proof -
  let ?e = "\<lparr>data = v, timestamp = t0\<rparr>"
  let ?s = "cache_run (cache_set t0 k v s) calls"
  have "fst ?s k = None \<or> fst ?s k = Some ?e"
    using assms(2) cache_set_entry [of t0 k v s]
    by (intro cache_run_no_set) simp_all
  then have g: "cache_get t1 k ?s = (None, (fst ?s)(k := None), recordCacheMiss (snd ?s))"
  proof
    assume n: "fst ?s k = None"
    then have "(fst ?s)(k := None) = fst ?s" by (simp add: fun_upd_idem)
    with n show ?thesis by (simp add: cache_get_absent)
  next
    assume "fst ?s k = Some ?e"
    with assms(1) show ?thesis by (simp add: cache_get_stale)
  qed
  show ?thesis
    unfolding g by (simp add: recordCacheMiss_def cache_get_def)
qed

text \<open>
  A value set at time 0 and read at 300001 ms: absent, the entry is gone, the other key's
  entry stays, and the new monitor counts one miss and no hit.
\<close>

theorem get_after_TTL_is_miss_witness:
  "cache_get 300001 ''token-1-USDC''
     (cache_run (cache_set 0 ''token-1-USDC'' (42::nat) (Map.empty, new_PerformanceMonitor))
        [(2000, Set ''token-1-WBTC'' 7)])
   = (None, [''token-1-WBTC'' \<mapsto> \<lparr>data = 7, timestamp = 2000\<rparr>],
      \<lparr>metrics = Map.empty, cacheHits = 0, cacheMisses = 1\<rparr>)"
proof -
  have "cache_run (cache_set 0 ''token-1-USDC'' (42::nat) (Map.empty, new_PerformanceMonitor))
        [(2000, Set ''token-1-WBTC'' 7)] =
        ([''token-1-USDC'' \<mapsto> \<lparr>data = 42, timestamp = 0\<rparr>,
          ''token-1-WBTC'' \<mapsto> \<lparr>data = 7, timestamp = 2000\<rparr>], new_PerformanceMonitor)"
    by (simp add: cache_run_def cache_set_def)
  moreover have "[''token-1-USDC'' \<mapsto> \<lparr>data = 42::nat, timestamp = 0\<rparr>,
          ''token-1-WBTC'' \<mapsto> \<lparr>data = 7, timestamp = 2000\<rparr>](''token-1-USDC'' := None)
       = [''token-1-WBTC'' \<mapsto> \<lparr>data = 7, timestamp = 2000\<rparr>]"
    by (rule ext) simp
  ultimately show ?thesis
    using get_after_TTL_is_miss [of 300001 0 "[(2000, Set ''token-1-WBTC'' 7)]" "''token-1-USDC''"
        "42::nat" "(Map.empty, new_PerformanceMonitor)"]
    by (simp add: TTL_def recordCacheMiss_def new_PerformanceMonitor_def)
qed

section \<open>Token service\<close>

subsection \<open>The cache of the module\<close>

lemma apiCache_get_result:
  "fst (apiCache_get now key m) = valid_entry now (apiCache m) key"
  by (simp add: apiCache_get_def cache_get_def valid_entry_def split: option.splits)

lemma apiCache_get_cache:
  "apiCache (snd (apiCache_get now key m)) =
     (if valid_entry now (apiCache m) key = None then (apiCache m)(key := None) else apiCache m)"
  by (auto simp: apiCache_get_def cache_get_def valid_entry_def fun_upd_idem split: option.splits)

lemma apiCache_get_calls:
  "apiCalls (snd (apiCache_get now key m)) = apiCalls m"
  by (simp add: apiCache_get_def cache_get_def split: option.splits)

lemma apiCache_get_monitor:
  "perfMonitor (snd (apiCache_get now key m)) =
     (if valid_entry now (apiCache m) key = None then recordCacheMiss (perfMonitor m)
      else recordCacheHit (perfMonitor m))"
  by (simp add: apiCache_get_def cache_get_def valid_entry_def split: option.splits)

lemma apiCache_get_hit:
  assumes "valid_entry now (apiCache m) key = Some t"
  shows "apiCache_get now key m = (Some t, m\<lparr>perfMonitor := recordCacheHit (perfMonitor m)\<rparr>)"
  using assms
  by (auto simp: apiCache_get_def cache_get_def valid_entry_def split: option.splits if_splits)

lemma apiCache_get_miss:
  assumes "valid_entry now (apiCache m) key = None"
  shows "apiCache_get now key m =
           (None, m\<lparr>apiCache := (apiCache m)(key := None),
                     perfMonitor := recordCacheMiss (perfMonitor m)\<rparr>)"
  using assms
  by (auto simp: apiCache_get_def cache_get_def valid_entry_def fun_upd_idem split: option.splits if_splits)

lemma fetch_price_cache:
  "apiCache (snd (fetch_price env chain_id tokenInfo m)) = apiCache m"
  by (simp add: fetch_price_def sent_def Let_def split: option.splits sum.splits)


lemma getTokenInfo_start_hit:
  assumes "valid_entry now (apiCache m) (cacheKey chain_id symb) = Some t"
  shows "getTokenInfo_start now chain_id symb m =
           (Some t, m\<lparr>perfMonitor := recordCacheHit (perfMonitor m)\<rparr>)"
  by (simp add: getTokenInfo_start_def apiCache_get_hit [OF assms])

lemma getTokenInfo_start_miss:
  assumes "valid_entry now (apiCache m) (cacheKey chain_id symb) = None"
  shows "getTokenInfo_start now chain_id symb m =
           (None, m\<lparr>apiCache := (apiCache m)(cacheKey chain_id symb := None),
                     perfMonitor := recordCacheMiss (perfMonitor m),
                     apiCalls := add_mset (AssetCall chain_id symb) (apiCalls m)\<rparr>)"
  by (simp add: getTokenInfo_start_def apiCache_get_miss [OF assms] sent_def)

lemma getTokenInfo_settle_resolves:
  "\<exists>r. fst (getTokenInfo_settle env chain_id symb started m) = Inr r"
  by (simp add: getTokenInfo_settle_def split: prod.splits option.splits sum.splits)

lemma getTokenInfo_resolves:
  "\<exists>r. fst (getTokenInfo env now chain_id symb m) = Inr r"
  by (simp add: getTokenInfo_def case_prod_beta getTokenInfo_settle_resolves)

lemma getTokenInfo_hit:
  assumes "valid_entry now (apiCache m) (cacheKey chain_id symb) = Some t"
  shows "getTokenInfo env now chain_id symb m =
           (Inr (Some t), m\<lparr>perfMonitor := recordCacheHit (perfMonitor m)\<rparr>)"
  by (simp add: getTokenInfo_def getTokenInfo_start_hit [OF assms] getTokenInfo_settle_def)

lemma getTokenInfo_miss:
  assumes "valid_entry now (apiCache m) (cacheKey chain_id symb) = None"
  shows "getTokenInfo env now chain_id symb m =
           (case getTokenInfo_try env chain_id symb
                   (m\<lparr>apiCache := (apiCache m)(cacheKey chain_id symb := None),
                      perfMonitor := recordCacheMiss (perfMonitor m),
                      apiCalls := add_mset (AssetCall chain_id symb) (apiCalls m)\<rparr>) of
              (Inl err, m2) \<Rightarrow> (Inr None, m2)
            | (Inr result, m2) \<Rightarrow> (Inr result, m2))"
  by (simp add: getTokenInfo_def getTokenInfo_start_miss [OF assms] getTokenInfo_settle_def)

lemma getTokenInfo_no_token:
  assumes miss: "valid_entry now (apiCache m) (cacheKey chain_id symb) = None"
      and none: "no_token (getAssetErc20ByChainAndSymbol env chain_id symb)"
  shows "getTokenInfo env now chain_id symb m =
           (Inr None, m\<lparr>apiCache := (apiCache m)(cacheKey chain_id symb := None),
                         perfMonitor := recordCacheMiss (perfMonitor m),
                         apiCalls := add_mset (AssetCall chain_id symb) (apiCalls m)\<rparr>)"
  using none
  by (auto simp: getTokenInfo_miss [OF miss] getTokenInfo_try_def no_token_def
           split: sum.splits option.splits)

lemma valid_entry_remove_expired:
  assumes "valid_entry now c key = None"
  shows "valid_entry now (c(key := None)) k = valid_entry now c k"
  using assms by (auto simp: valid_entry_def split: option.splits)

subsection \<open>The loop over the catalog, the fetches and their results\<close>

lemma cached_loop_all:
  assumes "list_all (\<lambda>token. valid_entry now (apiCache m) (key_of token) \<noteq> None) toks"
  shows "cached_loop now toks acc m =
           ((acc @ map (\<lambda>token. data (the (apiCache m (key_of token)))) toks, True),
            m\<lparr>perfMonitor := (recordCacheHit ^^ length toks) (perfMonitor m)\<rparr>)"
  using assms
proof (induction toks arbitrary: acc m)
  case Nil
  show ?case by simp
next
  case (Cons token rest)
  from Cons.prems obtain t where t: "valid_entry now (apiCache m) (key_of token) = Some t"
    by auto
  then have d: "data (the (apiCache m (key_of token))) = t"
    by (auto simp: valid_entry_def split: option.splits if_splits)
  let ?m1 = "m\<lparr>perfMonitor := recordCacheHit (perfMonitor m)\<rparr>"
  from Cons.prems
  have "list_all (\<lambda>token. valid_entry now (apiCache ?m1) (key_of token) \<noteq> None) rest"
    by simp
  from Cons.IH [OF this, of "acc @ [t]"] show ?case
    by (simp add: apiCache_get_hit [OF t] d funpow_swap1)
qed

lemma cached_loop_flag:
  "snd (fst (cached_loop now toks acc m)) =
     list_all (\<lambda>token. valid_entry now (apiCache m) (key_of token) \<noteq> None) toks"
proof (induction toks arbitrary: acc m)
  case Nil
  show ?case by simp
next
  case (Cons token rest)
  show ?case
  proof (cases "valid_entry now (apiCache m) (key_of token)")
    case None
    then show ?thesis by (simp add: apiCache_get_miss)
  next
    case (Some t)
    then show ?thesis by (simp add: apiCache_get_hit Cons.IH)
  qed
qed


lemma cached_loop_valid:
  "valid_entry now (apiCache (snd (cached_loop now toks acc m))) k = valid_entry now (apiCache m) k"
proof (induction toks arbitrary: acc m)
  case Nil
  show ?case by simp
next
  case (Cons token rest)
  show ?case
  proof (cases "valid_entry now (apiCache m) (key_of token)")
    case None
    then have "apiCache (snd (cached_loop now (token # rest) acc m)) =
                 (apiCache m)(key_of token := None)"
      by (simp add: apiCache_get_miss)
    then show ?thesis
      by (simp only: valid_entry_remove_expired [OF None])
  next
    case (Some t)
    then show ?thesis by (simp add: apiCache_get_hit Cons.IH)
  qed
qed

text \<open>The start of a fetch: what it finds, what it leaves of the cache, what it sends.\<close>

lemma getTokenInfo_start_result:
  "fst (getTokenInfo_start now chain_id symb m) = valid_entry now (apiCache m) (cacheKey chain_id symb)"
  by (cases "valid_entry now (apiCache m) (cacheKey chain_id symb)")
     (simp_all add: getTokenInfo_start_hit getTokenInfo_start_miss)

lemma getTokenInfo_start_valid:
  "valid_entry now (apiCache (snd (getTokenInfo_start now chain_id symb m))) k =
     valid_entry now (apiCache m) k"
  by (cases "valid_entry now (apiCache m) (cacheKey chain_id symb)")
     (simp_all add: getTokenInfo_start_hit getTokenInfo_start_miss valid_entry_remove_expired)


lemma start_each_result:
  "fst (start_each now toks m) = map (\<lambda>token. valid_entry now (apiCache m) (key_of token)) toks"
  by (induction toks arbitrary: m)
     (simp_all add: case_prod_beta getTokenInfo_start_result getTokenInfo_start_valid)

lemma start_each_valid:
  "valid_entry now (apiCache (snd (start_each now toks m))) k = valid_entry now (apiCache m) k"
  by (induction toks arbitrary: m) (simp_all add: case_prod_beta getTokenInfo_start_valid)





lemma settle_each_length:
  "length (fst (settle_each env ps m)) = length ps"
proof (induction ps arbitrary: m)
  case Nil
  show ?case by simp
next
  case (Cons q rest)
  then show ?case by (cases q) (simp add: case_prod_beta)
qed

lemma settle_each_resolved:
  "p \<in> set (fst (settle_each env ps m)) \<Longrightarrow> \<exists>r. p = Inr r"
proof (induction ps arbitrary: m)
  case Nil
  then show ?case by simp
next
  case (Cons q rest)
  obtain token started where q: "q = (token, started)" by (cases q)
  let ?g = "getTokenInfo_settle env (st_chainId token) (st_symbol token) started m"
  from Cons.prems q have "p = fst ?g \<or> p \<in> set (fst (settle_each env rest (snd ?g)))"
    by (simp add: case_prod_beta)
  then show ?case
  proof
    assume "p = fst ?g"
    with getTokenInfo_settle_resolves [of env "st_chainId token" "st_symbol token" started m]
    show ?thesis by simp
  next
    assume "p \<in> set (fst (settle_each env rest (snd ?g)))"
    then show ?thesis by (rule Cons.IH)
  qed
qed





lemma fetch_each_length:
  "length (fst (fetch_each env now toks m)) = length toks"
  by (simp add: fetch_each_def case_prod_beta settle_each_length start_each_result)

lemma fetch_each_resolved:
  "p \<in> set (fst (fetch_each env now toks m)) \<Longrightarrow> \<exists>r. p = Inr r"
  unfolding fetch_each_def case_prod_beta by (rule settle_each_resolved)



text \<open>
  The order in which the fetches finish does not matter: what a fetch comes to does not
  depend on the state in which it finishes, and two fetches of different keys leave the
  same state in either order. The keys of the catalog are pairwise different.
\<close>

lemma getTokenInfo_settle_result:
  "fst (getTokenInfo_settle env chain_id symb started m) =
   fst (getTokenInfo_settle env chain_id symb started m')"
  by (simp add: getTokenInfo_settle_def getTokenInfo_try_def fetch_price_def Let_def
        split: option.splits sum.splits prod.splits)

lemma getTokenInfo_settle_commute:
  assumes "cacheKey c1 s1 \<noteq> cacheKey c2 s2"
  shows "snd (getTokenInfo_settle env c2 s2 b (snd (getTokenInfo_settle env c1 s1 a m))) =
         snd (getTokenInfo_settle env c1 s1 a (snd (getTokenInfo_settle env c2 s2 b m)))"
  using assms
  by (auto simp: getTokenInfo_settle_def getTokenInfo_try_def fetch_price_def Let_def
        apiCache_set_def cache_set_def sent_def fun_upd_twist add_mset_commute
        split: option.splits sum.splits)

lemma catalog_keys_distinct: "distinct (map (\<lambda>token. key_of token) SUPPORTED_TOKENS)"
  by (simp add: SUPPORTED_TOKENS_def cacheKey_def)

lemma promise_all_resolved:
  assumes "\<forall>p \<in> set ps. \<exists>r. p = Inr r"
  shows "promise_all ps = Inr (map (\<lambda>promise. case promise of Inl err \<Rightarrow> None | Inr result \<Rightarrow> result) ps)"
  using assms
proof (induction ps)
  case Nil
  show ?case by simp
next
  case (Cons p ps)
  then obtain r where "p = Inr r" by auto
  with Cons show ?case by simp
qed

lemma promise_all_fetch_each:
  "promise_all (fst (fetch_each env now SUPPORTED_TOKENS (snd (cached_loop now SUPPORTED_TOKENS [] m))))
     = Inr (fetch_results env now m)"
  unfolding fetch_results_def
  by (rule promise_all_resolved) (auto dest: fetch_each_resolved)

lemma fetch_results_length: "length (fetch_results env now m) = 4"
  by (simp add: fetch_results_def fetch_each_length) (simp add: SUPPORTED_TOKENS_def)

lemma final_map:
  assumes "length results = 4"
  shows "map (result_or_fallback results) (enumerate 0 SUPPORTED_TOKENS) =
           map2 (\<lambda>token result. case result of Some t \<Rightarrow> t | None \<Rightarrow> fallback token)
             SUPPORTED_TOKENS results"
proof -
  from assms obtain a b c d where "results = [a, b, c, d]"
    by (auto simp: length_Suc_conv numeral_eq_Suc)
  then show ?thesis
    by (simp add: SUPPORTED_TOKENS_def result_or_fallback_def)
qed

lemma getAllTokensInfo_cached:
  assumes "all_cached now m"
  shows "getAllTokensInfo env now m =
           (Inr (map (\<lambda>token. data (the (apiCache m (key_of token)))) SUPPORTED_TOKENS),
            m\<lparr>perfMonitor := (recordCacheHit ^^ 4) (perfMonitor m)\<rparr>)"
proof -
  from assms
  have "list_all (\<lambda>token. valid_entry now (apiCache m) (key_of token) \<noteq> None) SUPPORTED_TOKENS"
    by (simp add: all_cached_def)
  moreover have "length SUPPORTED_TOKENS = 4"
    by (simp add: SUPPORTED_TOKENS_def)
  ultimately show ?thesis
    by (simp add: getAllTokensInfo_def cached_loop_all [of now m SUPPORTED_TOKENS "[]"])
qed

lemma getAllTokensInfo_refetch:
  assumes "\<not> all_cached now m"
  shows "getAllTokensInfo env now m =
           (Inr (map2 (\<lambda>token result. case result of Some t \<Rightarrow> t | None \<Rightarrow> fallback token)
                   SUPPORTED_TOKENS (fetch_results env now m)),
            snd (fetch_each env now SUPPORTED_TOKENS (snd (cached_loop now SUPPORTED_TOKENS [] m))))"
proof -
  obtain cachedTokens allCached m1
    where l: "cached_loop now SUPPORTED_TOKENS [] m = ((cachedTokens, allCached), m1)"
    by (cases "cached_loop now SUPPORTED_TOKENS [] m") auto
  with assms cached_loop_flag [of now SUPPORTED_TOKENS "[]" m] have f: "\<not> allCached"
    by (simp add: all_cached_def)
  obtain ps m2 where e: "fetch_each env now SUPPORTED_TOKENS m1 = (ps, m2)"
    by (cases "fetch_each env now SUPPORTED_TOKENS m1")
  from promise_all_fetch_each [of env now m] l e
  have "promise_all ps = Inr (fetch_results env now m)" by simp
  with l f e show ?thesis
    by (simp add: getAllTokensInfo_def final_map [OF fetch_results_length])
qed

subsection \<open>getTokenInfo fails soft\<close>

lemma fetch_price_zero:
  assumes "\<forall>addr. asset_address tokenInfo = Some addr \<and> addr \<noteq> [] \<longrightarrow>
             no_price (getAssetPriceInfo env chain_id addr)"
  shows "fst (fetch_price env chain_id tokenInfo m) = Finite 0"
  using assms
  by (auto simp: fetch_price_def no_price_def Let_def split: sum.splits option.splits)

lemma getTokenInfo_try_found:
  assumes "getAssetErc20ByChainAndSymbol env chain_id symb = Inr (Some tokenInfo)"
  shows "fst (getTokenInfo_try env chain_id symb m) =
           Inr (Some \<lparr>symbol = or_string (asset_symbol tokenInfo) symb,
                      name = or_string (asset_name tokenInfo) symb,
                      price = fst (fetch_price env chain_id tokenInfo m),
                      icon = getTokenIcon symb, chainId = chain_id,
                      address = asset_address tokenInfo\<rparr>)"
    and "apiCache (snd (getTokenInfo_try env chain_id symb m)) =
           (apiCache m)(cacheKey chain_id symb \<mapsto>
             \<lparr>data = \<lparr>symbol = or_string (asset_symbol tokenInfo) symb,
                      name = or_string (asset_name tokenInfo) symb,
                      price = fst (fetch_price env chain_id tokenInfo m),
                      icon = getTokenIcon symb, chainId = chain_id,
                      address = asset_address tokenInfo\<rparr>,
              timestamp = settled_at env chain_id symb\<rparr>)"
  using assms
  by (simp_all add: getTokenInfo_try_def Let_def case_prod_beta apiCache_set_def cache_set_def
        fetch_price_cache)

text \<open>
  Claim C6. The promise of \<^verbatim>\<open>getTokenInfo\<close> never rejects: for every API, clock reading,
  chain id, symbol and state the result is a value. When the read of the cache finds
  nothing and the asset lookup throws or answers no token, the result is absent and no
  entry is written: the cache is the one before the call without the entry of the key
  (which the read has dropped if it was expired), so every read at that time finds what
  it found before. When the asset lookup answers a token and the price lookup, if one is
  made, throws or gives no price, the result is a token of price 0, and the cache holds
  that token under the key, stamped with the time of the write.
\<close>

theorem getTokenInfo_fails_soft:
  "(\<exists>r. fst (getTokenInfo env now chain_id symb m) = Inr r)
   \<and> (valid_entry now (apiCache m) (cacheKey chain_id symb) = None
        \<and> no_token (getAssetErc20ByChainAndSymbol env chain_id symb) \<longrightarrow>
          fst (getTokenInfo env now chain_id symb m) = Inr None
          \<and> apiCache (snd (getTokenInfo env now chain_id symb m)) =
              (apiCache m)(cacheKey chain_id symb := None)
          \<and> (\<forall>k. valid_entry now (apiCache (snd (getTokenInfo env now chain_id symb m))) k =
                   valid_entry now (apiCache m) k))
   \<and> (valid_entry now (apiCache m) (cacheKey chain_id symb) = None
        \<and> getAssetErc20ByChainAndSymbol env chain_id symb = Inr (Some tokenInfo)
        \<and> (\<forall>addr. asset_address tokenInfo = Some addr \<and> addr \<noteq> [] \<longrightarrow>
               no_price (getAssetPriceInfo env chain_id addr)) \<longrightarrow>
          (\<exists>token.
              fst (getTokenInfo env now chain_id symb m) = Inr (Some token)
              \<and> price token = Finite 0
              \<and> token = \<lparr>symbol = or_string (asset_symbol tokenInfo) symb,
                          name = or_string (asset_name tokenInfo) symb,
                          price = Finite 0, icon = getTokenIcon symb, chainId = chain_id,
                          address = asset_address tokenInfo\<rparr>
              \<and> apiCache (snd (getTokenInfo env now chain_id symb m)) =
                  (apiCache m)(cacheKey chain_id symb \<mapsto>
                     \<lparr>data = token, timestamp = settled_at env chain_id symb\<rparr>)))"
proof (intro conjI impI)
  show "\<exists>r. fst (getTokenInfo env now chain_id symb m) = Inr r"
    by (rule getTokenInfo_resolves)
next
  assume a: "valid_entry now (apiCache m) (cacheKey chain_id symb) = None
        \<and> no_token (getAssetErc20ByChainAndSymbol env chain_id symb)"
  then show "fst (getTokenInfo env now chain_id symb m) = Inr None"
    by (simp add: getTokenInfo_no_token)
  from a show "apiCache (snd (getTokenInfo env now chain_id symb m)) =
              (apiCache m)(cacheKey chain_id symb := None)"
    by (simp add: getTokenInfo_no_token)
  from a show "\<forall>k. valid_entry now (apiCache (snd (getTokenInfo env now chain_id symb m))) k =
                   valid_entry now (apiCache m) k"
    by (simp add: getTokenInfo_no_token valid_entry_remove_expired)
next
  assume a: "valid_entry now (apiCache m) (cacheKey chain_id symb) = None
        \<and> getAssetErc20ByChainAndSymbol env chain_id symb = Inr (Some tokenInfo)
        \<and> (\<forall>addr. asset_address tokenInfo = Some addr \<and> addr \<noteq> [] \<longrightarrow>
               no_price (getAssetPriceInfo env chain_id addr))"
  let ?m1 = "m\<lparr>apiCache := (apiCache m)(cacheKey chain_id symb := None),
                perfMonitor := recordCacheMiss (perfMonitor m),
                apiCalls := add_mset (AssetCall chain_id symb) (apiCalls m)\<rparr>"
  let ?token = "\<lparr>symbol = or_string (asset_symbol tokenInfo) symb,
                          name = or_string (asset_name tokenInfo) symb,
                          price = Finite 0, icon = getTokenIcon symb, chainId = chain_id,
                          address = asset_address tokenInfo\<rparr>"
  from a have z: "\<And>m'. fst (fetch_price env chain_id tokenInfo m') = Finite 0"
    by (simp add: fetch_price_zero)
  from a have found: "getAssetErc20ByChainAndSymbol env chain_id symb = Inr (Some tokenInfo)"
    by simp
  from a have g: "getTokenInfo env now chain_id symb m =
      (case getTokenInfo_try env chain_id symb ?m1 of
              (Inl err, m2) \<Rightarrow> (Inr None, m2)
            | (Inr result, m2) \<Rightarrow> (Inr result, m2))"
    by (simp add: getTokenInfo_miss)
  have r: "fst (getTokenInfo env now chain_id symb m) = Inr (Some ?token)"
    using getTokenInfo_try_found(1) [OF found, of ?m1]
    by (cases "getTokenInfo_try env chain_id symb ?m1") (simp add: g z)
  have c: "apiCache (snd (getTokenInfo env now chain_id symb m)) =
             (apiCache m)(cacheKey chain_id symb \<mapsto>
                \<lparr>data = ?token, timestamp = settled_at env chain_id symb\<rparr>)"
    using getTokenInfo_try_found [OF found, of ?m1]
    by (cases "getTokenInfo_try env chain_id symb ?m1") (simp add: g z)
  from r c show "\<exists>token.
              fst (getTokenInfo env now chain_id symb m) = Inr (Some token)
              \<and> price token = Finite 0
              \<and> token = \<lparr>symbol = or_string (asset_symbol tokenInfo) symb,
                          name = or_string (asset_name tokenInfo) symb,
                          price = Finite 0, icon = getTokenIcon symb, chainId = chain_id,
                          address = asset_address tokenInfo\<rparr>
              \<and> apiCache (snd (getTokenInfo env now chain_id symb m)) =
                  (apiCache m)(cacheKey chain_id symb \<mapsto>
                     \<lparr>data = token, timestamp = settled_at env chain_id symb\<rparr>)"
    by simp
qed

lemma icon_USDC: "getTokenIcon ''USDC'' = glyph_banknote"
  by (simp add: getTokenIcon_def iconMap_def or_string_def upper_char_def glyph_banknote_def)

text \<open>
  On a new state: with the API down the fetch of USDC on chain 1 is absent and the cache
  stays empty; with an API that knows the asset and throws on the price it is the token
  at price 0, cached at the time of the write.
\<close>

theorem getTokenInfo_fails_soft_witness:
  "fst (getTokenInfo api_down 0 ''1'' ''USDC'' new_modules) = Inr None
   \<and> apiCache (snd (getTokenInfo api_down 0 ''1'' ''USDC'' new_modules)) = Map.empty
   \<and> fst (getTokenInfo api_no_price 0 ''1'' ''USDC'' new_modules) =
       Inr (Some \<lparr>symbol = ''USDC'', name = ''USDC'', price = Finite 0, icon = glyph_banknote,
                  chainId = ''1'', address = Some ''0xA0''\<rparr>)
   \<and> apiCache (snd (getTokenInfo api_no_price 0 ''1'' ''USDC'' new_modules)) =
       [''token-1-USDC'' \<mapsto>
          \<lparr>data = \<lparr>symbol = ''USDC'', name = ''USDC'', price = Finite 0, icon = glyph_banknote,
                   chainId = ''1'', address = Some ''0xA0''\<rparr>,
           timestamp = 50\<rparr>]"
proof -
  have miss: "valid_entry 0 (apiCache new_modules) (cacheKey ''1'' ''USDC'') = None"
    by (simp add: valid_entry_def new_modules_def)
  have down: "no_token (getAssetErc20ByChainAndSymbol api_down ''1'' ''USDC'')"
    by (simp add: no_token_def api_down_def)
  have found: "getAssetErc20ByChainAndSymbol api_no_price ''1'' ''USDC'' =
      Inr (Some \<lparr>asset_symbol = Some ''USDC'', asset_name = None, asset_address = Some ''0xA0''\<rparr>)"
    by (simp add: api_no_price_def)
  have nop: "\<forall>addr. asset_address \<lparr>asset_symbol = Some ''USDC'', asset_name = None, asset_address = Some ''0xA0''\<rparr> = Some addr \<and> addr \<noteq> [] \<longrightarrow>
               no_price (getAssetPriceInfo api_no_price ''1'' addr)"
    by (simp add: no_price_def api_no_price_def)
  from getTokenInfo_fails_soft [of api_down 0 "''1''" "''USDC''" new_modules] miss down
  have 1: "fst (getTokenInfo api_down 0 ''1'' ''USDC'' new_modules) = Inr None
   \<and> apiCache (snd (getTokenInfo api_down 0 ''1'' ''USDC'' new_modules)) = Map.empty"
    by (simp add: new_modules_def)
  from getTokenInfo_fails_soft [of api_no_price 0 "''1''" "''USDC''" new_modules
       "\<lparr>asset_symbol = Some ''USDC'', asset_name = None, asset_address = Some ''0xA0''\<rparr>"]
     miss found nop
  have 2: "fst (getTokenInfo api_no_price 0 ''1'' ''USDC'' new_modules) =
       Inr (Some \<lparr>symbol = ''USDC'', name = ''USDC'', price = Finite 0, icon = glyph_banknote,
                  chainId = ''1'', address = Some ''0xA0''\<rparr>)
   \<and> apiCache (snd (getTokenInfo api_no_price 0 ''1'' ''USDC'' new_modules)) =
       [''token-1-USDC'' \<mapsto>
          \<lparr>data = \<lparr>symbol = ''USDC'', name = ''USDC'', price = Finite 0, icon = glyph_banknote,
                   chainId = ''1'', address = Some ''0xA0''\<rparr>,
           timestamp = 50\<rparr>]"
    by (simp add: new_modules_def or_string_def icon_USDC cacheKey_def api_no_price_def)
  from 1 2 show ?thesis by simp
qed

subsection \<open>getAllTokensInfo returns four tokens\<close>

lemma fallback_records:
  "map fallback SUPPORTED_TOKENS =
     [\<lparr>symbol = ''USDC'', name = ''USD Coin'', price = Finite 1, icon = glyph_banknote,
       chainId = ''1'', address = None\<rparr>,
      \<lparr>symbol = ''USDT'', name = ''Tether USD'', price = Finite 1, icon = glyph_banknote,
       chainId = ''137'', address = None\<rparr>,
      \<lparr>symbol = ''ETH'', name = ''Ethereum'', price = Finite 2500, icon = glyph_xi,
       chainId = ''8453'', address = None\<rparr>,
      \<lparr>symbol = ''WBTC'', name = ''Wrapped Bitcoin'', price = Finite 45000, icon = glyph_bitcoin,
       chainId = ''1'', address = None\<rparr>]"
  by (simp add: SUPPORTED_TOKENS_def fallback_def getDefaultPrice_def priceMap_def)

lemma cached_tokens_valid:
  assumes "list_all (\<lambda>token. valid_entry now c (key_of token) \<noteq> None) toks"
  shows "map Some (map (\<lambda>token. data (the (c (key_of token)))) toks) =
           map (\<lambda>token. valid_entry now c (key_of token)) toks"
  using assms
  by (induction toks) (auto simp: valid_entry_def split: option.splits if_splits)

text \<open>
  Claim C1. Whatever the API answers and whatever the state, \<^verbatim>\<open>getAllTokensInfo\<close> resolves
  to a list of exactly 4 tokens in catalog order. When every token is cached, they are
  the cached tokens of the four keys. Otherwise position by position the list holds the
  token its fetch found, and the fallback record of the catalog entry where the fetch
  found none; the four fallback records are the catalog's symbol, name, icon and chain
  id with the default prices 1, 1, 2500 and 45000 and no address.
\<close>

theorem getAllTokensInfo_four_tokens:
  "(\<exists>ts. fst (getAllTokensInfo env now m) = Inr ts
        \<and> length ts = 4
        \<and> (if all_cached now m
           then map Some ts =
                  map (\<lambda>token. valid_entry now (apiCache m)
                                 (cacheKey (st_chainId token) (st_symbol token)))
                    SUPPORTED_TOKENS
           else length (fetch_results env now m) = 4
                \<and> ts = map2 (\<lambda>token result. case result of Some t \<Rightarrow> t | None \<Rightarrow> fallback token)
                         SUPPORTED_TOKENS (fetch_results env now m)
                \<and> (\<forall>i<4. fetch_results env now m ! i = None \<longrightarrow>
                            ts ! i = fallback (SUPPORTED_TOKENS ! i))))
   \<and> map fallback SUPPORTED_TOKENS =
     [\<lparr>symbol = ''USDC'', name = ''USD Coin'', price = Finite 1, icon = glyph_banknote,
       chainId = ''1'', address = None\<rparr>,
      \<lparr>symbol = ''USDT'', name = ''Tether USD'', price = Finite 1, icon = glyph_banknote,
       chainId = ''137'', address = None\<rparr>,
      \<lparr>symbol = ''ETH'', name = ''Ethereum'', price = Finite 2500, icon = glyph_xi,
       chainId = ''8453'', address = None\<rparr>,
      \<lparr>symbol = ''WBTC'', name = ''Wrapped Bitcoin'', price = Finite 45000, icon = glyph_bitcoin,
       chainId = ''1'', address = None\<rparr>]"
proof (intro conjI)
  have len: "length SUPPORTED_TOKENS = 4"
    by (simp add: SUPPORTED_TOKENS_def)
  show "\<exists>ts. fst (getAllTokensInfo env now m) = Inr ts
        \<and> length ts = 4
        \<and> (if all_cached now m
           then map Some ts =
                  map (\<lambda>token. valid_entry now (apiCache m)
                                 (cacheKey (st_chainId token) (st_symbol token)))
                    SUPPORTED_TOKENS
           else length (fetch_results env now m) = 4
                \<and> ts = map2 (\<lambda>token result. case result of Some t \<Rightarrow> t | None \<Rightarrow> fallback token)
                         SUPPORTED_TOKENS (fetch_results env now m)
                \<and> (\<forall>i<4. fetch_results env now m ! i = None \<longrightarrow>
                            ts ! i = fallback (SUPPORTED_TOKENS ! i)))"
  proof (cases "all_cached now m")
    case True
    then have "list_all (\<lambda>token. valid_entry now (apiCache m) (key_of token) \<noteq> None) SUPPORTED_TOKENS"
      by (simp add: all_cached_def)
    from cached_tokens_valid [OF this] True show ?thesis
      by (simp add: getAllTokensInfo_cached len)
  next
    case False
    let ?ts = "map2 (\<lambda>token result. case result of Some t \<Rightarrow> t | None \<Rightarrow> fallback token)
                 SUPPORTED_TOKENS (fetch_results env now m)"
    have "\<forall>i<4. fetch_results env now m ! i = None \<longrightarrow> ?ts ! i = fallback (SUPPORTED_TOKENS ! i)"
      by (simp add: len fetch_results_length)
    with False show ?thesis
      by (simp add: getAllTokensInfo_refetch len fetch_results_length)
  qed
next
  show "map fallback SUPPORTED_TOKENS =
     [\<lparr>symbol = ''USDC'', name = ''USD Coin'', price = Finite 1, icon = glyph_banknote,
       chainId = ''1'', address = None\<rparr>,
      \<lparr>symbol = ''USDT'', name = ''Tether USD'', price = Finite 1, icon = glyph_banknote,
       chainId = ''137'', address = None\<rparr>,
      \<lparr>symbol = ''ETH'', name = ''Ethereum'', price = Finite 2500, icon = glyph_xi,
       chainId = ''8453'', address = None\<rparr>,
      \<lparr>symbol = ''WBTC'', name = ''Wrapped Bitcoin'', price = Finite 45000, icon = glyph_bitcoin,
       chainId = ''1'', address = None\<rparr>]"
    by (rule fallback_records)
qed

lemma not_cached_new: "\<not> all_cached now new_modules"
  by (simp add: all_cached_def new_modules_def valid_entry_def SUPPORTED_TOKENS_def)

lemma getTokenInfo_settle_down: "getTokenInfo_settle api_down chain_id symb None m = (Inr None, m)"
  by (simp add: getTokenInfo_settle_def getTokenInfo_try_def api_down_def)

lemma fetch_results_down: "fetch_results api_down 0 new_modules = [None, None, None, None]"
proof -
  have "map (\<lambda>token. valid_entry 0 (apiCache (snd (cached_loop 0 SUPPORTED_TOKENS [] new_modules)))
                       (key_of token)) SUPPORTED_TOKENS = [None, None, None, None]"
    unfolding cached_loop_valid
    by (simp add: valid_entry_def new_modules_def SUPPORTED_TOKENS_def)
  then have "fst (fetch_each api_down 0 SUPPORTED_TOKENS (snd (cached_loop 0 SUPPORTED_TOKENS [] new_modules)))
               = [Inr None, Inr None, Inr None, Inr None]"
    unfolding fetch_each_def case_prod_beta start_each_result
    by (simp add: SUPPORTED_TOKENS_def [THEN arg_cong, of "\<lambda>ts. zip ts [None, None, None, None]"]
          getTokenInfo_settle_down)
  then show ?thesis
    by (simp add: fetch_results_def)
qed

text \<open>With the API down and nothing cached the result is the four fallback records.\<close>

theorem getAllTokensInfo_four_tokens_witness:
  "fst (getAllTokensInfo api_down 0 new_modules) =
     Inr [\<lparr>symbol = ''USDC'', name = ''USD Coin'', price = Finite 1, icon = glyph_banknote,
           chainId = ''1'', address = None\<rparr>,
          \<lparr>symbol = ''USDT'', name = ''Tether USD'', price = Finite 1, icon = glyph_banknote,
           chainId = ''137'', address = None\<rparr>,
          \<lparr>symbol = ''ETH'', name = ''Ethereum'', price = Finite 2500, icon = glyph_xi,
           chainId = ''8453'', address = None\<rparr>,
          \<lparr>symbol = ''WBTC'', name = ''Wrapped Bitcoin'', price = Finite 45000, icon = glyph_bitcoin,
           chainId = ''1'', address = None\<rparr>]"
proof -
  from getAllTokensInfo_four_tokens [of api_down 0 new_modules]
  obtain ts where ts: "fst (getAllTokensInfo api_down 0 new_modules) = Inr ts"
    and "ts = map2 (\<lambda>token result. case result of Some t \<Rightarrow> t | None \<Rightarrow> fallback token)
                         SUPPORTED_TOKENS (fetch_results api_down 0 new_modules)"
    and fb: "map fallback SUPPORTED_TOKENS =
     [\<lparr>symbol = ''USDC'', name = ''USD Coin'', price = Finite 1, icon = glyph_banknote,
       chainId = ''1'', address = None\<rparr>,
      \<lparr>symbol = ''USDT'', name = ''Tether USD'', price = Finite 1, icon = glyph_banknote,
       chainId = ''137'', address = None\<rparr>,
      \<lparr>symbol = ''ETH'', name = ''Ethereum'', price = Finite 2500, icon = glyph_xi,
       chainId = ''8453'', address = None\<rparr>,
      \<lparr>symbol = ''WBTC'', name = ''Wrapped Bitcoin'', price = Finite 45000, icon = glyph_bitcoin,
       chainId = ''1'', address = None\<rparr>]"
    by (auto simp: not_cached_new)
  then have "ts = map fallback SUPPORTED_TOKENS"
    by (simp add: fetch_results_down SUPPORTED_TOKENS_def)
  with ts fb show ?thesis by simp
qed

subsection \<open>The short cut through the cache\<close>













section \<open>Conversion view\<close>

subsection \<open>The pattern of the amount field\<close>

lemma point_not_digit: "\<not> is_digit (CHR ''.'')"
  by (simp add: is_digit_def)

lemma all_digits_pattern:
  assumes "\<forall>c \<in> set ds. is_digit c"
  shows "list_all (\<lambda>c. is_digit c \<or> c = CHR ''.'') ds" and "count_list ds (CHR ''.'') = 0"
  using assms point_not_digit by (auto simp: list_all_iff count_list_0_iff)

lemma count_zero_digits:
  assumes "list_all (\<lambda>c. is_digit c \<or> c = CHR ''.'') ds" and "count_list ds (CHR ''.'') = 0"
  shows "\<forall>c \<in> set ds. is_digit c"
  using assms by (auto simp: list_all_iff count_list_0_iff)

lemma pattern_append:
  "decimal_pattern (a @ b) =
     (list_all (\<lambda>c. is_digit c \<or> c = CHR ''.'') a \<and> list_all (\<lambda>c. is_digit c \<or> c = CHR ''.'') b
      \<and> count_list a (CHR ''.'') + count_list b (CHR ''.'') \<le> 1)"
  by (auto simp: decimal_pattern_def)

lemma decimal_test_pattern: "decimal_test v = decimal_pattern v"
proof -
  define ip where "ip = takeWhile is_digit v"
  define rest where "rest = dropWhile is_digit v"
  have v: "v = ip @ rest"
    by (simp add: ip_def rest_def)
  have ip: "\<forall>c \<in> set ip. is_digit c"
    unfolding ip_def by (auto dest: set_takeWhileD)
  have t: "decimal_test v =
      (dropWhile is_digit (case rest of [] \<Rightarrow> [] | c # cs \<Rightarrow> if c = CHR ''.'' then cs else rest) = [])"
    by (simp add: decimal_test_def rest_def Let_def)
  have p: "decimal_pattern v =
      (list_all (\<lambda>c. is_digit c \<or> c = CHR ''.'') rest \<and> count_list rest (CHR ''.'') \<le> 1)"
    unfolding v pattern_append using all_digits_pattern [OF ip] by simp
  show ?thesis
  proof (cases rest)
    case Nil
    then show ?thesis by (simp add: t p)
  next
    case (Cons c cs)
    from Cons have "dropWhile is_digit v = c # cs"
      by (simp add: rest_def)
    then have c: "\<not> is_digit c"
      by (rule dropWhile_eq_Cons_conv [THEN iffD1, THEN conjunct2])
    show ?thesis
    proof (cases "c = CHR ''.''")
      case True
      have A: "decimal_test v = (\<forall>x \<in> set cs. is_digit x)"
        using True Cons by (simp add: t)
      have B: "decimal_pattern v =
          (list_all (\<lambda>c. is_digit c \<or> c = CHR ''.'') cs \<and> count_list cs (CHR ''.'') = 0)"
        using True Cons by (simp add: p)
      show ?thesis
        unfolding A B
        using all_digits_pattern [of cs] count_zero_digits [of cs] by blast
    next
      case False
      with c Cons show ?thesis
        by (simp add: t p)
    qed
  qed
qed

text \<open>
  Claim C8. A typed string becomes the left amount if and only if it is made of digits
  with at most one decimal point; any other string leaves the state exactly as it was.
  \<open>12.34.5\<close> is rejected and \<open>12.34\<close> is accepted.
\<close>

theorem amount_accepted_iff_decimal:
  "handleLeftAmountChange v st = (if decimal_pattern v then st\<lparr>leftAmount := v\<rparr> else st)
   \<and> handleLeftAmountChange ''12.34.5'' st = st
   \<and> handleLeftAmountChange ''12.34'' st = st\<lparr>leftAmount := ''12.34''\<rparr>"
proof -
  have e: "decimal_pattern []" by (simp add: decimal_pattern_def)
  have g: "handleLeftAmountChange w st = (if decimal_pattern w then st\<lparr>leftAmount := w\<rparr> else st)"
    for w
    using e by (auto simp: handleLeftAmountChange_def decimal_test_pattern)
  have "\<not> decimal_pattern ''12.34.5''" and "decimal_pattern ''12.34''"
    by (simp_all add: decimal_pattern_def is_digit_def)
  with g show ?thesis by simp
qed

text \<open>\<open>0.5\<close> is taken over; \<open>1e5\<close> changes nothing.\<close>

theorem amount_accepted_iff_decimal_witness:
  "handleLeftAmountChange ''0.5'' (selected (priced ''USDC'' (Finite 1)) (priced ''ETH'' (Finite 2500)))
     = (selected (priced ''USDC'' (Finite 1)) (priced ''ETH'' (Finite 2500)))\<lparr>leftAmount := ''0.5''\<rparr>
   \<and> handleLeftAmountChange ''1e5'' (selected (priced ''USDC'' (Finite 1)) (priced ''ETH'' (Finite 2500)))
     = selected (priced ''USDC'' (Finite 1)) (priced ''ETH'' (Finite 2500))"
  using amount_accepted_iff_decimal [of "''0.5''"] amount_accepted_iff_decimal [of "''1e5''"]
  by (simp add: decimal_pattern_def is_digit_def)

subsection \<open>Numerals and their values\<close>

lemma digit_char_is_digit: "d < 10 \<Longrightarrow> is_digit (digit_char d)"
  unfolding is_digit_def digit_char_def by (rule nth_mem) simp

lemma digit_value_digit_char: "d < 10 \<Longrightarrow> digit_value (digit_char d) = d"
proof -
  assume "d < 10"
  then have "d \<in> {0, 1, 2, 3, 4, 5, 6, 7, 8, 9}" by auto
  then show ?thesis
    by (auto simp: digit_value_def digit_char_def)
qed

lemma digit_string_digits: "\<forall>c \<in> set (digit_string n). is_digit c"
proof (induction n rule: digit_string.induct)
  case (1 n)
  show ?case
  proof (cases "n < 10")
    case True
    then show ?thesis
      by (subst digit_string.simps) (simp add: digit_char_is_digit)
  next
    case False
    with 1 show ?thesis
      by (subst digit_string.simps) (simp add: digit_char_is_digit)
  qed
qed

lemma digit_string_not_empty: "digit_string n \<noteq> []"
  by (subst digit_string.simps) simp

lemma digits_value_snoc: "digits_value (ds @ [c]) = 10 * digits_value ds + digit_value c"
  by (simp add: digits_value_def)

lemma digits_value_append:
  "digits_value (a @ b) = digits_value a * 10 ^ length b + digits_value b"
proof (induction b rule: rev_induct)
  case Nil
  show ?case by (simp add: digits_value_def)
next
  case (snoc c b)
  have "digits_value (a @ b @ [c]) = 10 * digits_value (a @ b) + digit_value c"
    using digits_value_snoc [of "a @ b" c] by simp
  with snoc show ?case
    by (simp add: digits_value_snoc algebra_simps)
qed

lemma digits_value_digit_string: "digits_value (digit_string n) = n"
proof (induction n rule: digit_string.induct)
  case (1 n)
  show ?case
  proof (cases "n < 10")
    case True
    then show ?thesis
      by (subst digit_string.simps) (simp add: digits_value_def digit_value_digit_char)
  next
    case False
    with 1 have "digits_value (digit_string (n div 10)) = n div 10" by simp
    with False show ?thesis
      by (subst digit_string.simps) (simp add: digits_value_snoc digit_value_digit_char)
  qed
qed

lemma digits_value_zeros: "digits_value (replicate k (CHR ''0'') @ ds) = digits_value ds"
proof -
  have "digits_value (replicate k (CHR ''0'')) = 0"
  proof (induction k)
    case 0
    show ?case by (simp add: digits_value_def)
  next
    case (Suc k)
    have "replicate (Suc k) (CHR ''0'') = replicate k (CHR ''0'') @ [CHR ''0'']"
      by (simp add: replicate_append_same)
    with Suc show ?case
      by (simp only: digits_value_snoc) (simp add: digit_value_def)
  qed
  then show ?thesis
    by (simp add: digits_value_append)
qed

subsection \<open>parseFloat on decimal numerals\<close>

lemma strip_one_none:
  assumes "c \<notin> set [CHR 0x09, CHR 0x0A, CHR 0x0B, CHR 0x0C, CHR 0x0D, CHR 0x20,
                     CHR 0xC2, CHR 0xE1, CHR 0xE2, CHR 0xE3, CHR 0xEF]"
  shows "strip_one white_space (c # cs) = None"
  using assms by (simp add: white_space_def)

lemma trim_start_digit:
  assumes "is_digit c \<or> c = CHR ''-''"
  shows "trim_start (c # cs) = c # cs"
proof -
  from assms have "strip_one white_space (c # cs) = None"
    by (intro strip_one_none) (auto simp: is_digit_def)
  then show ?thesis
    by (subst trim_start.simps) simp
qed

lemma not_Infinity:
  assumes "is_digit c"
  shows "take 8 (c # cs) \<noteq> ''Infinity''"
proof
  assume "take 8 (c # cs) = ''Infinity''"
  then have "c = CHR ''I''"
    by (simp add: take_Cons' split: if_splits)
  with assms show False
    by (simp add: is_digit_def)
qed

lemma parse_unsigned_decimal:
  assumes ip: "\<forall>c \<in> set ip. is_digit c" and ne: "ip \<noteq> []" and fp: "\<forall>c \<in> set fp. is_digit c"
  shows "parse_unsigned (ip @ ''.'' @ fp) = fl (mantissa ip fp)"
proof -
  from ne obtain c cs where c: "ip = c # cs" by (cases ip) auto
  with ip have "is_digit c" by simp
  then have inf: "take 8 (ip @ ''.'' @ fp) \<noteq> ''Infinity''"
    using not_Infinity [of c "cs @ ''.'' @ fp"] c by simp
  have tw: "takeWhile is_digit (ip @ ''.'' @ fp) = ip"
    using ip point_not_digit by (simp add: takeWhile_append2)
  have dw: "dropWhile is_digit (ip @ ''.'' @ fp) = ''.'' @ fp"
    using ip point_not_digit by (simp add: dropWhile_append2)
  have tw2: "takeWhile is_digit fp = fp"
    using fp by (simp add: takeWhile_eq_all_conv)
  have dw2: "dropWhile is_digit fp = []"
    using fp by (simp add: dropWhile_eq_Nil_conv)
  show ?thesis
    unfolding parse_unsigned_def Let_def tw dw
    using inf ne by (simp add: tw2 dw2 exponent_factor_def)
qed

lemma trim_start_point: "trim_start (CHR ''.'' # cs) = CHR ''.'' # cs"
proof -
  have "strip_one white_space (CHR ''.'' # cs) = None"
    by (intro strip_one_none) simp
  then show ?thesis
    by (subst trim_start.simps) simp
qed

lemma trim_start_empty: "trim_start [] = []"
  by (subst trim_start.simps) (simp add: white_space_def)

lemma accepted_shape:
  assumes "decimal_test s"
  shows "dropWhile is_digit s = [] \<or>
         (\<exists>fp. dropWhile is_digit s = CHR ''.'' # fp \<and> (\<forall>c \<in> set fp. is_digit c))"
proof (cases "dropWhile is_digit s")
  case Nil
  then show ?thesis by simp
next
  case (Cons c cs)
  then have c: "\<not> is_digit c"
    by (rule dropWhile_eq_Cons_conv [THEN iffD1, THEN conjunct2])
  show ?thesis
  proof (cases "c = CHR ''.''")
    case True
    with assms Cons have "dropWhile is_digit cs = []"
      by (simp add: decimal_test_def)
    then have "\<forall>c \<in> set cs. is_digit c"
      by (simp add: dropWhile_eq_Nil_conv)
    with True Cons show ?thesis by simp
  next
    case False
    with assms Cons c show ?thesis
      by (auto simp: decimal_test_def)
  qed
qed

lemma parseFloat_accepted:
  assumes "decimal_test s"
  shows "parseFloat s =
           (if \<exists>c \<in> set s. is_digit c
            then fl (mantissa (takeWhile is_digit s) (tl (dropWhile is_digit s)))
            else NaN)"
proof -
  define ip where "ip = takeWhile is_digit s"
  define rest where "rest = dropWhile is_digit s"
  have s: "s = ip @ rest"
    by (simp add: ip_def rest_def)
  have ip: "\<forall>c \<in> set ip. is_digit c"
    unfolding ip_def by (auto dest: set_takeWhileD)
  from accepted_shape [OF assms]
  have shape: "rest = [] \<or> (\<exists>fp. rest = CHR ''.'' # fp \<and> (\<forall>c \<in> set fp. is_digit c))"
    by (simp add: rest_def)
  show ?thesis
  proof (cases ip)
    case Nil
    from shape show ?thesis
    proof
      assume "rest = []"
      with Nil s have "s = []" by simp
      then show ?thesis
        by (simp add: parseFloat_def trim_start_empty)
    next
      assume "\<exists>fp. rest = CHR ''.'' # fp \<and> (\<forall>c \<in> set fp. is_digit c)"
      then obtain fp where r: "rest = CHR ''.'' # fp" and fp: "\<forall>c \<in> set fp. is_digit c"
        by blast
      from Nil s r have sv: "s = CHR ''.'' # fp" by simp
      have tw: "takeWhile is_digit fp = fp"
        using fp by (simp add: takeWhile_eq_all_conv)
      have dw: "dropWhile is_digit fp = []"
        using fp by (simp add: dropWhile_eq_Nil_conv)
      have digit: "(\<exists>c \<in> set s. is_digit c) = (fp \<noteq> [])"
        using fp point_not_digit unfolding sv by (cases fp) auto
      have "parse_unsigned (CHR ''.'' # fp) = (if fp = [] then NaN else fl (mantissa [] fp))"
        using point_not_digit
        by (simp add: parse_unsigned_def Let_def tw dw exponent_factor_def)
      then show ?thesis
        unfolding digit
        using point_not_digit by (simp add: sv parseFloat_def trim_start_point)
    qed
  next
    case (Cons c cs)
    with ip have d: "is_digit c" by simp
    then have sign: "c \<noteq> CHR ''-''" "c \<noteq> CHR ''+''"
      by (auto simp: is_digit_def)
    from Cons s have sv: "s = c # cs @ rest" by simp
    have pf: "parseFloat s = parse_unsigned s"
      using d sign by (simp add: sv parseFloat_def trim_start_digit)
    have inf: "take 8 s \<noteq> ''Infinity''"
      unfolding sv using d by (rule not_Infinity)
    have digit: "\<exists>c \<in> set s. is_digit c"
      using d sv by auto
    from shape show ?thesis
    proof
      assume r: "rest = []"
      then have "parse_unsigned s = fl (mantissa ip [])"
        using inf Cons
        by (simp add: parse_unsigned_def Let_def ip_def [symmetric] rest_def [symmetric])
      with digit r show ?thesis
        by (simp add: pf ip_def [symmetric] rest_def [symmetric])
    next
      assume "\<exists>fp. rest = CHR ''.'' # fp \<and> (\<forall>c \<in> set fp. is_digit c)"
      then obtain fp where r: "rest = CHR ''.'' # fp" and fp: "\<forall>c \<in> set fp. is_digit c"
        by blast
      have "ip \<noteq> []" using Cons by simp
      from parse_unsigned_decimal [OF ip this fp] s r
      have "parse_unsigned s = fl (mantissa ip fp)" by simp
      with digit r show ?thesis
        by (simp add: pf ip_def [symmetric] rest_def [symmetric])
    qed
  qed
qed

subsection \<open>toFixed and rounding\<close>

lemma zero_is_digit: "is_digit (CHR ''0'')"
  by (simp add: is_digit_def)

lemma toFixed_parts:
  assumes small: "\<bar>a\<bar> < 10 ^ 21"
  shows "\<exists>ip fp. toFixed ex 6 (Finite a) = (if a < 0 then ''-'' else []) @ ip @ ''.'' @ fp
           \<and> ip \<noteq> [] \<and> length fp = 6
           \<and> (\<forall>c \<in> set ip. is_digit c) \<and> (\<forall>c \<in> set fp. is_digit c)
           \<and> mantissa ip fp = real (nat \<lfloor>\<bar>a\<bar> * 10 ^ 6 + 1 / 2\<rfloor>) / 10 ^ 6"
proof -
  define n where "n = nat \<lfloor>\<bar>a\<bar> * 10 ^ 6 + 1 / 2\<rfloor>"
  define m where "m = digit_string n"
  define padded where
    "padded = (if length m \<le> 6 then replicate (6 + 1 - length m) (CHR ''0'') @ m else m)"
  define ip where "ip = take (length padded - 6) padded"
  define fp where "fp = drop (length padded - 6) padded"
  have m_digits: "\<forall>c \<in> set m. is_digit c"
    unfolding m_def by (rule digit_string_digits)
  have m_ne: "m \<noteq> []"
    unfolding m_def by (rule digit_string_not_empty)
  have len: "7 \<le> length padded"
    using m_ne by (auto simp: padded_def)
  have p_digits: "\<forall>c \<in> set padded. is_digit c"
    using m_digits zero_is_digit by (auto simp: padded_def)
  have p_value: "digits_value padded = n"
    by (simp add: padded_def digits_value_zeros m_def digits_value_digit_string)
  have split: "padded = ip @ fp"
    by (simp add: ip_def fp_def)
  have fp_len: "length fp = 6"
    using len by (simp add: fp_def)
  have ip_ne: "ip \<noteq> []"
    using len by (auto simp: ip_def)
  have ip_digits: "\<forall>c \<in> set ip. is_digit c" and fp_digits: "\<forall>c \<in> set fp. is_digit c"
    using p_digits unfolding split by auto
  have "real n = real (digits_value ip) * 10 ^ 6 + real (digits_value fp)"
    using p_value digits_value_append [of ip fp] fp_len unfolding split
    by (metis of_nat_add of_nat_mult of_nat_numeral of_nat_power)
  then have mval: "mantissa ip fp = real n / 10 ^ 6"
    by (simp add: mantissa_def fp_len field_simps)
  have "toFixed ex 6 (Finite a) = (if a < 0 then ''-'' else []) @ ip @ ''.'' @ fp"
    unfolding ip_def fp_def padded_def m_def n_def toFixed_def Let_def
    using small by simp
  with ip_ne fp_len ip_digits fp_digits mval show ?thesis
    unfolding n_def by blast
qed

lemma round_places_error: "\<bar>round_places 6 a - a\<bar> \<le> 1 / (2 * 10 ^ 6)"
proof -
  define b where "b = \<bar>a\<bar> * 10 ^ 6"
  have b0: "0 \<le> b" by (simp add: b_def)
  define n where "n = nat \<lfloor>b + 1 / 2\<rfloor>"
  have fl: "0 \<le> \<lfloor>b + 1 / 2\<rfloor>" using b0 by simp
  then have rn: "real n = of_int \<lfloor>b + 1 / 2\<rfloor>"
    by (simp add: n_def)
  have "of_int \<lfloor>b + 1 / 2\<rfloor> \<le> b + 1 / 2" and "b + 1 / 2 < of_int \<lfloor>b + 1 / 2\<rfloor> + 1"
    by linarith+
  with rn have near: "\<bar>real n - b\<bar> \<le> 1 / 2"
    by linarith
  have "\<bar>real n / 10 ^ 6 - \<bar>a\<bar>\<bar> = \<bar>real n - b\<bar> / 10 ^ 6"
    by (simp add: b_def field_simps abs_mult)
  also have "\<dots> \<le> (1 / 2) / 10 ^ 6"
    using near by (simp add: divide_right_mono)
  finally have mag: "\<bar>real n / 10 ^ 6 - \<bar>a\<bar>\<bar> \<le> 1 / (2 * 10 ^ 6)"
    by simp
  show ?thesis
  proof (cases "a < 0")
    case True
    then have "round_places 6 a - a = - (real n / 10 ^ 6 - \<bar>a\<bar>)"
      by (simp add: round_places_def n_def b_def)
    with mag show ?thesis by (simp only: abs_minus)
  next
    case False
    then have "round_places 6 a - a = real n / 10 ^ 6 - \<bar>a\<bar>"
      by (simp add: round_places_def n_def b_def)
    with mag show ?thesis by (simp only:)
  qed
qed

subsection \<open>The derived right amount\<close>

lemma updateRightAmount_selected:
  assumes "leftToken st = Some l" and "rightToken st = Some r" and "amount \<noteq> []"
  shows "rightAmount (updateRightAmount ex amount st) =
           (if isNaN (conversion amount l r) then ''0'' else toFixed ex 6 (conversion amount l r))"
  using assms by (simp add: updateRightAmount_def conversion_def Let_def)

lemma conversion_finite:
  assumes "parseFloat amount = Finite a" and "price l = Finite p1" and "price r = Finite p2"
  shows "conversion amount l r = js_divide (fl (a * p1)) (Finite p2)"
  using assms by (simp add: conversion_def)

text \<open>
  Claim C4, as amended. With both tokens selected and a non-empty amount whose quotient,
  as the program computes it in binary64 (the amount parsed, the product rounded, the
  quotient rounded), is a finite number \<open>q\<close> below \<open>10\<^sup>2\<^sup>1\<close> in magnitude, the right amount
  is \<^verbatim>\<open>q.toFixed(6)\<close>: a numeral with a minus sign when \<open>q\<close> is negative, at least one
  digit before the point and exactly six after it, whose value is \<open>q\<close> rounded to six
  decimal places, at most half a millionth away from \<open>q\<close>. (What an accepted amount parses
  to is \<open>parseFloat_accepted\<close>.)
\<close>

theorem rightAmount_rounds_finite_quotient:
  assumes "leftToken st = Some l" and "rightToken st = Some r" and "amount \<noteq> []"
      and "conversion amount l r = Finite q" and "\<bar>q\<bar> < 10 ^ 21"
  shows "rightAmount (updateRightAmount ex amount st) = toFixed ex 6 (Finite q)
         \<and> (\<exists>ip fp. rightAmount (updateRightAmount ex amount st) =
                        (if q < 0 then ''-'' else []) @ ip @ ''.'' @ fp
               \<and> ip \<noteq> [] \<and> length fp = 6 \<and> (\<forall>c \<in> set (ip @ fp). is_digit c)
               \<and> (if q < 0 then - mantissa ip fp else mantissa ip fp) = round_places 6 q)
         \<and> \<bar>round_places 6 q - q\<bar> \<le> 1 / (2 * 10 ^ 6)"
proof -
  have shown: "rightAmount (updateRightAmount ex amount st) = toFixed ex 6 (Finite q)"
    using assms(1-4) by (simp add: updateRightAmount_selected)
  from toFixed_parts [OF assms(5), of ex] obtain ip fp
    where parts: "toFixed ex 6 (Finite q) = (if q < 0 then ''-'' else []) @ ip @ ''.'' @ fp"
      and ip: "ip \<noteq> []" "\<forall>c \<in> set ip. is_digit c"
      and fp: "length fp = 6" "\<forall>c \<in> set fp. is_digit c"
      and m: "mantissa ip fp = real (nat \<lfloor>\<bar>q\<bar> * 10 ^ 6 + 1 / 2\<rfloor>) / 10 ^ 6"
    by blast
  have "(if q < 0 then - mantissa ip fp else mantissa ip fp) = round_places 6 q"
    unfolding m by (simp add: round_places_def)
  with parts ip fp
  have "\<exists>ip fp. toFixed ex 6 (Finite q) = (if q < 0 then ''-'' else []) @ ip @ ''.'' @ fp
               \<and> ip \<noteq> [] \<and> length fp = 6 \<and> (\<forall>c \<in> set (ip @ fp). is_digit c)
               \<and> (if q < 0 then - mantissa ip fp else mantissa ip fp) = round_places 6 q"
    by (intro exI [of _ ip] exI [of _ fp]) auto
  then show ?thesis
    unfolding shown using round_places_error [of q] by blast
qed

text \<open>Evaluation of the roundings that the examples need.\<close>

lemma fl_one: "fl 1 = Finite 1"
  by (subst fl_binade [where e = 0]) (simp_all add: pow2_def round_even_def)

lemma parseFloat_0: "parseFloat ''0'' = Finite 0"
proof -
  have "decimal_test ''0''"
    by (simp add: decimal_test_def is_digit_def)
  from parseFloat_accepted [OF this] show ?thesis
    by (simp add: is_digit_def mantissa_def digits_value_def digit_value_def fl_zero)
qed

lemma parseFloat_1: "parseFloat ''1'' = Finite 1"
proof -
  have "decimal_test ''1''"
    by (simp add: decimal_test_def is_digit_def)
  from parseFloat_accepted [OF this] show ?thesis
    by (simp add: is_digit_def mantissa_def digits_value_def digit_value_def fl_one)
qed

lemma parseFloat_point: "parseFloat ''.'' = NaN"
proof -
  have "decimal_test ''.''"
    by (simp add: decimal_test_def is_digit_def)
  from parseFloat_accepted [OF this] show ?thesis
    by (simp add: is_digit_def)
qed

lemma fl_2500th: "fl (1 / 2500) = Finite (7378697629483821 / 18446744073709551616)"
  by (subst fl_binade [where e = "- 12"]) (simp_all add: pow2_def round_even_def)

text \<open>
  The example of the specification: prices 1 and 2500 and the amount \<open>1\<close>. The quotient is
  the binary64 number nearest to 1/2500, and the right amount is \<open>0.000400\<close>.
\<close>

theorem rightAmount_rounds_finite_quotient_witness:
  "conversion ''1'' (priced ''USDC'' (Finite 1)) (priced ''ETH'' (Finite 2500)) =
     Finite (7378697629483821 / 18446744073709551616)
   \<and> rightAmount (updateRightAmount no_exponential ''1''
        (selected (priced ''USDC'' (Finite 1)) (priced ''ETH'' (Finite 2500)))) = ''0.000400''"
proof -
  let ?l = "priced ''USDC'' (Finite 1)" and ?r = "priced ''ETH'' (Finite 2500)"
  let ?q = "7378697629483821 / 18446744073709551616 :: real"
  have c: "conversion ''1'' ?l ?r = Finite ?q"
    using conversion_finite [OF parseFloat_1, of ?l 1 ?r 2500]
    by (simp add: priced_def fl_one fl_2500th)
  have t: "toFixed no_exponential 6 (Finite ?q) = ''0.000400''"
    by code_simp
  have lt: "leftToken (selected ?l ?r) = Some ?l" and rt: "rightToken (selected ?l ?r) = Some ?r"
    by (simp_all add: selected_def)
  have ne: "''1'' \<noteq> []" and small: "\<bar>?q\<bar> < 10 ^ 21"
    by simp_all
  note fact = rightAmount_rounds_finite_quotient [OF lt rt ne c small, of no_exponential]
  have "rightAmount (updateRightAmount no_exponential ''1'' (selected ?l ?r)) = ''0.000400''"
    by (simp only: fact [THEN conjunct1] t)
  with c show ?thesis by simp
qed

text \<open>
  The amount \<open>1.00125\<close> at the same prices. The exact quotient 0.0004005 lies halfway
  between two numerals of six places; the binary64 quotient lies just below it, and the
  right amount is \<open>0.000400\<close>.
\<close>

lemma amount_below_tie:
  "conversion ''1.00125'' (priced ''USDC'' (Finite 1)) (priced ''ETH'' (Finite 2500)) =
     Finite (7387921001520675 / 18446744073709551616)
   \<and> 7387921001520675 / 18446744073709551616 < (4005 / 10000000 :: real)
   \<and> rightAmount (updateRightAmount no_exponential ''1.00125''
        (selected (priced ''USDC'' (Finite 1)) (priced ''ETH'' (Finite 2500)))) = ''0.000400''"
proof -
  let ?l = "priced ''USDC'' (Finite 1)" and ?r = "priced ''ETH'' (Finite 2500)"
  let ?a = "4509229126904709 / 4503599627370496 :: real"
  let ?q = "7387921001520675 / 18446744073709551616 :: real"
  have "decimal_test ''1.00125''"
    by (simp add: decimal_test_def is_digit_def)
  from parseFloat_accepted [OF this]
  have "parseFloat ''1.00125'' = fl (100125 / 100000)"
    by (simp add: is_digit_def mantissa_def digits_value_def digit_value_def)
  moreover have "fl (100125 / 100000) = Finite ?a"
    by (subst fl_binade [where e = 0]) (simp_all add: pow2_def round_even_def)
  ultimately have p: "parseFloat ''1.00125'' = Finite ?a"
    by simp
  have m: "fl ?a = Finite ?a"
    by (subst fl_binade [where e = 0]) (simp_all add: pow2_def round_even_def)
  have d: "fl (?a / 2500) = Finite ?q"
    by (subst fl_binade [where e = "- 12"]) (simp_all add: pow2_def round_even_def)
  have "conversion ''1.00125'' ?l ?r = js_divide (fl (?a * 1)) (Finite 2500)"
    using conversion_finite [OF p, of ?l 1 ?r 2500] by (simp add: priced_def)
  also have "\<dots> = Finite ?q"
    unfolding mult_1_right m using d by simp
  finally have c: "conversion ''1.00125'' ?l ?r = Finite ?q" .
  have t: "toFixed no_exponential 6 (Finite ?q) = ''0.000400''"
    by code_simp
  have "rightAmount (updateRightAmount no_exponential ''1.00125'' (selected ?l ?r)) = ''0.000400''"
    using c t by (simp add: updateRightAmount_selected [of _ ?l ?r] selected_def)
  with c show ?thesis by simp
qed

text \<open>
  An amount of twenty-one nines at prices 1 and 1: the amount parses to the binary64
  number \<open>10\<^sup>2\<^sup>1\<close>, the quotient is not below \<open>10\<^sup>2\<^sup>1\<close>, and the right amount is the
  number's string in exponent notation.
\<close>

lemma amount_of_21_nines:
  "conversion ''999999999999999999999'' (priced ''USDC'' (Finite 1)) (priced ''USDT'' (Finite 1)) =
     Finite (10 ^ 21)
   \<and> rightAmount (updateRightAmount ex ''999999999999999999999''
        (selected (priced ''USDC'' (Finite 1)) (priced ''USDT'' (Finite 1)))) = ex (10 ^ 21)"
proof -
  let ?l = "priced ''USDC'' (Finite 1)" and ?r = "priced ''USDT'' (Finite 1)"
  have "decimal_test ''999999999999999999999''"
    by (simp add: decimal_test_def is_digit_def)
  from parseFloat_accepted [OF this]
  have "parseFloat ''999999999999999999999'' = fl 999999999999999999999"
    by (simp add: is_digit_def mantissa_def digits_value_def digit_value_def)
  moreover have "fl 999999999999999999999 = Finite (10 ^ 21)"
    by (subst fl_binade [where e = 69]) (simp_all add: pow2_def round_even_def)
  ultimately have p: "parseFloat ''999999999999999999999'' = Finite (10 ^ 21)"
    by simp
  have m: "fl (10 ^ 21) = Finite (10 ^ 21)"
    by (subst fl_binade [where e = 69]) (simp_all add: pow2_def round_even_def)
  have c: "conversion ''999999999999999999999'' ?l ?r = Finite (10 ^ 21)"
    using conversion_finite [OF p, of ?l 1 ?r 1] m by (simp add: priced_def)
  have "toFixed ex 6 (Finite (10 ^ 21)) = ex (10 ^ 21)"
    by (simp add: toFixed_def)
  with c show ?thesis
    by (simp add: updateRightAmount_selected [of _ ?l ?r] selected_def)
qed

text \<open>
  The claim as it stands covers every accepted amount that is not empty. The single point
  is one: its quotient is NaN, and the guard on NaN shows \<open>0\<close>, which is not the
  rendering of the quotient to six places.
\<close>

theorem point_amount_shows_zero:
  "decimal_test ''.'' \<and> ''.'' \<noteq> []
   \<and> conversion ''.'' (priced ''USDC'' (Finite 1)) (priced ''ETH'' (Finite 2500)) = NaN
   \<and> rightAmount (updateRightAmount no_exponential ''.''
        (selected (priced ''USDC'' (Finite 1)) (priced ''ETH'' (Finite 2500)))) = ''0''
   \<and> toFixed no_exponential 6
        (conversion ''.'' (priced ''USDC'' (Finite 1)) (priced ''ETH'' (Finite 2500))) = ''NaN''"
proof -
  have d: "decimal_test ''.''"
    by (simp add: decimal_test_def is_digit_def)
  have c: "conversion ''.'' (priced ''USDC'' (Finite 1)) (priced ''ETH'' (Finite 2500)) = NaN"
    by (simp add: conversion_def parseFloat_point)
  show ?thesis
    using d c
    by (simp add: updateRightAmount_selected [of _ "priced ''USDC'' (Finite 1)" "priced ''ETH'' (Finite 2500)"]
          selected_def toFixed_def)
qed

text \<open>
  Claim C5, as amended. With both tokens selected and a non-empty amount whose quotient
  is NaN, the right amount is \<open>0\<close>.
\<close>

theorem nan_quotient_shows_zero:
  assumes "leftToken st = Some l" and "rightToken st = Some r" and "amount \<noteq> []"
      and "isNaN (conversion amount l r)"
  shows "rightAmount (updateRightAmount ex amount st) = ''0''"
  using assms by (simp add: updateRightAmount_selected)

text \<open>The amount \<open>0\<close> at a right price of 0: the quotient 0/0 is NaN, and \<open>0\<close> is shown.\<close>

theorem nan_quotient_shows_zero_witness:
  "isNaN (conversion ''0'' (priced ''USDC'' (Finite 1)) (priced ''ETH'' (Finite 0)))
   \<and> rightAmount (updateRightAmount no_exponential ''0''
        (selected (priced ''USDC'' (Finite 1)) (priced ''ETH'' (Finite 0)))) = ''0''"
proof -
  have n: "isNaN (conversion ''0'' (priced ''USDC'' (Finite 1)) (priced ''ETH'' (Finite 0)))"
    by (simp add: conversion_def parseFloat_0 priced_def fl_zero)
  with nan_quotient_shows_zero [of "selected (priced ''USDC'' (Finite 1)) (priced ''ETH'' (Finite 0))"
      "priced ''USDC'' (Finite 1)" "priced ''ETH'' (Finite 0)" "''0''" no_exponential]
  show ?thesis
    by (simp add: selected_def)
qed

text \<open>
  The guard tests for NaN only. The amount \<open>1\<close> at a right price of 0 has the quotient
  \<open>+\<infinity>\<close>, which is not finite, and the right amount is \<open>Infinity\<close>, not \<open>0\<close>.
\<close>

theorem zero_price_shows_Infinity:
  "decimal_test ''1'' \<and> ''1'' \<noteq> []
   \<and> conversion ''1'' (priced ''USDC'' (Finite 1)) (priced ''ETH'' (Finite 0)) = PosInfinity
   \<and> \<not> isFinite (conversion ''1'' (priced ''USDC'' (Finite 1)) (priced ''ETH'' (Finite 0)))
   \<and> rightAmount (updateRightAmount no_exponential ''1''
        (selected (priced ''USDC'' (Finite 1)) (priced ''ETH'' (Finite 0)))) = ''Infinity''"
proof -
  have d: "decimal_test ''1''"
    by (simp add: decimal_test_def is_digit_def)
  have c: "conversion ''1'' (priced ''USDC'' (Finite 1)) (priced ''ETH'' (Finite 0)) = PosInfinity"
    by (simp add: conversion_def parseFloat_1 priced_def fl_one)
  show ?thesis
    using d c
    by (simp add: updateRightAmount_selected [of _ "priced ''USDC'' (Finite 1)" "priced ''ETH'' (Finite 0)"]
          selected_def toFixed_def)
qed


end
